theory Spec2Isabelle
  imports Complex_Main
begin

unbundle bit_operations_syntax

section \<open>Pixel buffers\<close>

text \<open>
  The transforms of \<^verbatim>\<open>CryptaPixelon.py\<close> work on the numpy array of a PIL image:
  \<^verbatim>\<open>np.array(img)\<close> is two-dimensional (height, width) for a greyscale image and
  three-dimensional (height, width, channels) for a colour image. An array is the list
  of its rows; a row of a 2-D array is a list of samples, a row of a 3-D array is a
  list of pixels, and a pixel is the list of its channel samples. Samples are integers;
  what a dtype can hold is written out by the conversions below.
\<close>

datatype 'a ndarray = Arr2 "'a list list" | Arr3 "'a list list list"

text \<open>The length of the first element of a list of lists (0 when there is none).\<close>

definition width :: "'a list list \<Rightarrow> nat" where
  "width rows = (case rows of [] \<Rightarrow> 0 | r # _ \<Rightarrow> length r)"

text \<open>\<^verbatim>\<open>a.shape\<close>: the height, the width and, for a 3-D array, the channel count.\<close>

fun shape :: "'a ndarray \<Rightarrow> nat list" where
  "shape (Arr2 rows) = [length rows, width rows]"
| "shape (Arr3 rows) = [length rows, width rows, width (concat rows)]"

text \<open>
  A numpy array is rectangular: all rows have the same length and all pixels the same
  number of channels. This is the representation invariant of the nested lists.
\<close>

fun rect :: "'a ndarray \<Rightarrow> bool" where
  "rect (Arr2 rows) = (\<forall>r \<in> set rows. length r = width rows)"
| "rect (Arr3 rows) =
     ((\<forall>r \<in> set rows. length r = width rows) \<and>
      (\<forall>p \<in> set (concat rows). length p = width (concat rows)))"

text \<open>The samples of a \<^verbatim>\<open>uint8\<close> array lie in 0..255.\<close>

definition is_uint8 :: "int ndarray \<Rightarrow> bool" where
  "is_uint8 a = (\<forall>x \<in> set_ndarray a. 0 \<le> x \<and> x \<le> 255)"

subsection \<open>The numpy operations the transforms use\<close>

text \<open>
  \<^verbatim>\<open>astype(np.int16)\<close> and \<^verbatim>\<open>astype('uint8')\<close> keep the low 16 (8) bits of every
  sample, read as a two's complement (unsigned) number. An arithmetic operation on an
  \<^verbatim>\<open>int16\<close> array and a Python integer that fits \<^verbatim>\<open>int16\<close> is done in \<^verbatim>\<open>int16\<close>:
  the exact result, wrapped by \<open>int16\<close>.
\<close>

definition int16 :: "int \<Rightarrow> int" where
  "int16 x = (x + 32768) mod 65536 - 32768"

definition uint8 :: "int \<Rightarrow> int" where
  "uint8 x = x mod 256"

definition astype_int16 :: "int ndarray \<Rightarrow> int ndarray" where
  "astype_int16 a = map_ndarray int16 a"

definition astype_uint8 :: "int ndarray \<Rightarrow> int ndarray" where
  "astype_uint8 a = map_ndarray uint8 a"

text \<open>\<^verbatim>\<open>np.clip(a, lo, hi)\<close> is \<^verbatim>\<open>minimum(maximum(a, lo), hi)\<close>, sample by sample.\<close>

definition np_clip :: "int ndarray \<Rightarrow> int \<Rightarrow> int \<Rightarrow> int ndarray" where
  "np_clip a lo hi = map_ndarray (\<lambda>x. min (max x lo) hi) a"

text \<open>
  \<^verbatim>\<open>np.roll(a, shift, axis=0)\<close>: with \<^verbatim>\<open>offset = shift % (a.shape[0] or 1)\<close>, a zero
  offset returns the rows as they are; otherwise the result's rows from \<^verbatim>\<open>offset\<close> on
  are the rows \<^verbatim>\<open>a[:-offset]\<close> and its first \<^verbatim>\<open>offset\<close> rows are \<^verbatim>\<open>a[-offset:]\<close>.
\<close>

definition roll_rows :: "'a list \<Rightarrow> int \<Rightarrow> 'a list" where
  "roll_rows xs shift =
     (let n = length xs;
          offset = nat (shift mod (if n = 0 then 1 else int n))
      in if offset = 0 then xs else drop (n - offset) xs @ take (n - offset) xs)"

fun np_roll :: "'a ndarray \<Rightarrow> int \<Rightarrow> 'a ndarray" where
  "np_roll (Arr2 rows) shift = Arr2 (roll_rows rows shift)"
| "np_roll (Arr3 rows) shift = Arr3 (roll_rows rows shift)"

text \<open>
  \<^verbatim>\<open>pixels[:, :, [0, 2]] = pixels[:, :, [2, 0]]\<close>: the right-hand side is a copy, so
  every pixel gets its old channel 2 at index 0 and its old channel 0 at index 2. The
  source runs it only on a 3-D array with at least three channels.
\<close>

fun swap_channels :: "'a ndarray \<Rightarrow> 'a ndarray" where
  "swap_channels (Arr3 rows) = Arr3 (map (map (\<lambda>p. p[0 := p ! 2, 2 := p ! 0])) rows)"
| "swap_channels (Arr2 rows) = Arr2 rows"

text \<open>\<^verbatim>\<open>pixels[:, :, 1] = f(pixels[:, :, 1])\<close> for a sample-wise \<open>f\<close>.\<close>

fun map_channel1 :: "('a \<Rightarrow> 'a) \<Rightarrow> 'a ndarray \<Rightarrow> 'a ndarray" where
  "map_channel1 f (Arr3 rows) = Arr3 (map (map (\<lambda>p. p[1 := f (p ! 1)])) rows)"
| "map_channel1 f (Arr2 rows) = Arr2 rows"

text \<open>
  \<^verbatim>\<open>np.random.randint(0, 2, pixels.shape)\<close> draws one bit per sample. The drawn bits
  are a parameter of the model: \<open>rnd\<close> gives the bit drawn at each index (row, column
  and, in a 3-D array, channel). \<open>or_noise rnd a\<close> is \<^verbatim>\<open>a | noise\<close> for that draw.
\<close>

definition imap :: "(nat \<Rightarrow> 'a \<Rightarrow> 'b) \<Rightarrow> 'a list \<Rightarrow> 'b list" where
  "imap f xs = map (\<lambda>(i, x). f i x) (enumerate 0 xs)"

fun or_noise :: "(nat list \<Rightarrow> bool) \<Rightarrow> int ndarray \<Rightarrow> int ndarray" where
  "or_noise rnd (Arr2 rows) =
     Arr2 (imap (\<lambda>i. imap (\<lambda>j x. x OR of_bool (rnd [i, j]))) rows)"
| "or_noise rnd (Arr3 rows) =
     Arr3 (imap (\<lambda>i. imap (\<lambda>j. imap (\<lambda>c x. x OR of_bool (rnd [i, j, c])))) rows)"

text \<open>A draw in which every bit is 0, and one in which every bit is 1.\<close>

definition all_zero :: "nat list \<Rightarrow> bool" where
  "all_zero idx = False"

definition all_one :: "nat list \<Rightarrow> bool" where
  "all_one idx = True"

section \<open>The transforms\<close>

text \<open>
  \<open>encrypt_pixels\<close> is the value of the variable \<^verbatim>\<open>pixels\<close> of
  \<^verbatim>\<open>encrypt_image_from_array\<close> when its last line is reached: the \<^verbatim>\<open>int16\<close> copy of
  the argument, changed by the branch of the method. A method that is none of the five
  names takes no branch. \<^verbatim>\<open>%\<close> is numpy's remainder, which has the sign of the divisor,
  as \<open>mod\<close> has; \<^verbatim>\<open>np.left_shift\<close> is \<open>push_bit\<close> and \<^verbatim>\<open>np.right_shift\<close> on a signed
  array is the arithmetic shift \<open>drop_bit\<close>.
\<close>

definition encrypt_pixels :: "int ndarray \<Rightarrow> int \<Rightarrow> string \<Rightarrow> (nat list \<Rightarrow> bool) \<Rightarrow> int ndarray" where
  "encrypt_pixels pixels0 key method rnd =
     (let pixels = astype_int16 pixels0 in
      if method = ''swap'' then
        (if length (shape pixels) = 3 \<and> shape pixels ! 2 \<ge> 3
         then map_channel1 (\<lambda>x. int16 (x + key) mod 256) (swap_channels pixels)
         else pixels)
      else if method = ''xor'' then map_ndarray (\<lambda>x. int16 (x XOR key)) pixels
      else if method = ''shift'' then
        map_ndarray (\<lambda>x. int16 (push_bit (nat (key mod 8)) x) mod 256) pixels
      else if method = ''aes'' then
        map_ndarray (\<lambda>x. int16 (x + key * 3) mod 256) (np_roll pixels key)
      else if method = ''steganography'' then
        or_noise rnd (map_ndarray (\<lambda>x. x AND 254) pixels)
      else pixels)"

definition decrypt_pixels :: "int ndarray \<Rightarrow> int \<Rightarrow> string \<Rightarrow> int ndarray" where
  "decrypt_pixels pixels0 key method =
     (let pixels = astype_int16 pixels0 in
      if method = ''swap'' then
        (if length (shape pixels) = 3 \<and> shape pixels ! 2 \<ge> 3
         then map_channel1 (\<lambda>x. int16 (x - key) mod 256) (swap_channels pixels)
         else pixels)
      else if method = ''xor'' then map_ndarray (\<lambda>x. int16 (x XOR key)) pixels
      else if method = ''shift'' then
        map_ndarray (\<lambda>x. drop_bit (nat (key mod 8)) x mod 256) pixels
      else if method = ''aes'' then
        map_ndarray (\<lambda>x. int16 (x - key * 3) mod 256) (np_roll pixels (- key))
      else if method = ''steganography'' then
        map_ndarray (\<lambda>x. x AND 254) pixels
      else pixels)"

text \<open>
  Both functions end with
  \<^verbatim>\<open>return Image.fromarray(np.clip(pixels, 0, 255).astype('uint8'))\<close>.
  The PIL image that is returned is represented by the \<^verbatim>\<open>uint8\<close> array it is made from
  (the caller gets the same array back with \<^verbatim>\<open>np.array(image)\<close>).
\<close>

definition encrypt_image_from_array :: "int ndarray \<Rightarrow> int \<Rightarrow> string \<Rightarrow> (nat list \<Rightarrow> bool) \<Rightarrow> int ndarray" where
  "encrypt_image_from_array pixels key method rnd =
     astype_uint8 (np_clip (encrypt_pixels pixels key method rnd) 0 255)"

definition decrypt_image_from_array :: "int ndarray \<Rightarrow> int \<Rightarrow> string \<Rightarrow> int ndarray" where
  "decrypt_image_from_array pixels key method =
     astype_uint8 (np_clip (decrypt_pixels pixels key method) 0 255)"

text \<open>The five method names of the source's branches.\<close>

definition methods :: "string list" where
  "methods = [''swap'', ''xor'', ''shift'', ''aes'', ''steganography'']"

section \<open>The transforms on a store\<close>

text \<open>
  numpy arrays are mutable objects, and the swap branch writes into \<^verbatim>\<open>pixels\<close> in place.
  To say what a call does to the caller's array, the arrays live in a store: a map from
  addresses to arrays, with the next unused address. \<open>alloc\<close> makes a new array,
  \<open>assign\<close> overwrites the array at an address in place.
\<close>

record store =
  mem :: "nat \<Rightarrow> int ndarray option"
  next_addr :: nat

definition alloc :: "int ndarray \<Rightarrow> store \<Rightarrow> nat \<times> store" where
  "alloc v s = (next_addr s, s\<lparr>mem := (mem s)(next_addr s \<mapsto> v), next_addr := Suc (next_addr s)\<rparr>)"

definition assign :: "nat \<Rightarrow> int ndarray \<Rightarrow> store \<Rightarrow> store" where
  "assign p v s = s\<lparr>mem := (mem s)(p \<mapsto> v)\<rparr>"

text \<open>
  The functions take the address \<open>a\<close> of the caller's array and return the address of
  the array of the returned image with the store after the call (\<open>None\<close> when \<open>a\<close> is
  not the address of an array). \<^verbatim>\<open>pixels = pixels.astype(np.int16)\<close> makes a new array
  and binds the local name to it; the two assignments of the swap branch write into
  that array; every other branch binds the name to the new array its expression
  makes; \<^verbatim>\<open>np.clip\<close> and \<^verbatim>\<open>astype('uint8')\<close> make new arrays again. Each tuple below is
  the address the name \<^verbatim>\<open>pixels\<close> is bound to, the array at that address, and the store.
\<close>

definition encrypt_image_from_array_st ::
  "store \<Rightarrow> nat \<Rightarrow> int \<Rightarrow> string \<Rightarrow> (nat list \<Rightarrow> bool) \<Rightarrow> (nat \<times> store) option" where
  "encrypt_image_from_array_st s a key method rnd =
     (case mem s a of
        None \<Rightarrow> None
      | Some arg \<Rightarrow>
          let pixels = astype_int16 arg;
              (p, s1) = alloc pixels s;
              (q, final, s2) =
                (if method = ''swap'' then
                   (if length (shape pixels) = 3 \<and> shape pixels ! 2 \<ge> 3 then
                      let swapped = swap_channels pixels;
                          s1a = assign p swapped s1;
                          added = map_channel1 (\<lambda>x. int16 (x + key) mod 256) swapped
                      in (p, added, assign p added s1a)
                    else (p, pixels, s1))
                 else if method = ''xor'' then
                   let v = map_ndarray (\<lambda>x. int16 (x XOR key)) pixels;
                       (q, s1a) = alloc v s1
                   in (q, v, s1a)
                 else if method = ''shift'' then
                   let v = map_ndarray (\<lambda>x. int16 (push_bit (nat (key mod 8)) x) mod 256) pixels;
                       (q, s1a) = alloc v s1
                   in (q, v, s1a)
                 else if method = ''aes'' then
                   let rolled = np_roll pixels key;
                       (t, s1a) = alloc rolled s1;
                       v = map_ndarray (\<lambda>x. int16 (x + key * 3) mod 256) rolled;
                       (q, s1b) = alloc v s1a
                   in (q, v, s1b)
                 else if method = ''steganography'' then
                   let v = or_noise rnd (map_ndarray (\<lambda>x. x AND 254) pixels);
                       (q, s1a) = alloc v s1
                   in (q, v, s1a)
                 else (p, pixels, s1));
              clipped = np_clip final 0 255;
              (c, s3) = alloc clipped s2;
              (r, s4) = alloc (astype_uint8 clipped) s3
          in Some (r, s4))"

definition decrypt_image_from_array_st ::
  "store \<Rightarrow> nat \<Rightarrow> int \<Rightarrow> string \<Rightarrow> (nat \<times> store) option" where
  "decrypt_image_from_array_st s a key method =
     (case mem s a of
        None \<Rightarrow> None
      | Some arg \<Rightarrow>
          let pixels = astype_int16 arg;
              (p, s1) = alloc pixels s;
              (q, final, s2) =
                (if method = ''swap'' then
                   (if length (shape pixels) = 3 \<and> shape pixels ! 2 \<ge> 3 then
                      let swapped = swap_channels pixels;
                          s1a = assign p swapped s1;
                          added = map_channel1 (\<lambda>x. int16 (x - key) mod 256) swapped
                      in (p, added, assign p added s1a)
                    else (p, pixels, s1))
                 else if method = ''xor'' then
                   let v = map_ndarray (\<lambda>x. int16 (x XOR key)) pixels;
                       (q, s1a) = alloc v s1
                   in (q, v, s1a)
                 else if method = ''shift'' then
                   let v = map_ndarray (\<lambda>x. drop_bit (nat (key mod 8)) x mod 256) pixels;
                       (q, s1a) = alloc v s1
                   in (q, v, s1a)
                 else if method = ''aes'' then
                   let rolled = np_roll pixels (- key);
                       (t, s1a) = alloc rolled s1;
                       v = map_ndarray (\<lambda>x. int16 (x - key * 3) mod 256) rolled;
                       (q, s1b) = alloc v s1a
                   in (q, v, s1b)
                 else if method = ''steganography'' then
                   let v = map_ndarray (\<lambda>x. x AND 254) pixels;
                       (q, s1a) = alloc v s1
                   in (q, v, s1a)
                 else (p, pixels, s1));
              clipped = np_clip final 0 255;
              (c, s3) = alloc clipped s2;
              (r, s4) = alloc (astype_uint8 clipped) s3
          in Some (r, s4))"

section \<open>The analyzer\<close>

text \<open>
  The analysis works on Python floats. A float is modelled by the real number it
  stands for: the comparisons of the source are then exact, the rounding of the
  arithmetic is not modelled. \<^verbatim>\<open>analyze_image\<close> returns a dict with five fixed keys (a
  record here), or \<^verbatim>\<open>None\<close> when any statement of its body raises.
\<close>

record analysis =
  entropy :: real
  contrast :: real
  brightness :: real
  edge_density :: real
  complexity :: string

text \<open>\<^verbatim>\<open>np.mean\<close> and \<^verbatim>\<open>np.std\<close> (the population standard deviation) of the samples.\<close>

definition np_mean :: "real list \<Rightarrow> real" where
  "np_mean xs = sum_list xs / real (length xs)"

definition np_std :: "real list \<Rightarrow> real" where
  "np_std xs = sqrt (np_mean (map (\<lambda>x. (x - np_mean xs)\<^sup>2) xs))"

text \<open>
  \<^verbatim>\<open>np.histogram(a, bins)\<close>: the bins divide the range from the least to the greatest
  sample (widened by one half on both sides when they are equal, and 0 to 1 for no
  sample at all) into equal parts; the last bin contains its right edge.
\<close>

definition np_histogram :: "real list \<Rightarrow> nat \<Rightarrow> nat list" where
  "np_histogram xs bins =
     (let first = (if xs = [] then 0 else Min (set xs));
          last = (if xs = [] then 1 else Max (set xs));
          lo = (if first = last then first - 1 / 2 else first);
          hi = (if first = last then last + 1 / 2 else last);
          bin = (\<lambda>x. if x = hi then bins - 1
                     else nat \<lfloor>(x - lo) * real bins / (hi - lo)\<rfloor>)
      in map (\<lambda>i. length (filter (\<lambda>x. bin x = i) xs)) [0..<bins])"

text \<open>
  \<^verbatim>\<open>np.gradient(gray)[0]\<close>: \<^verbatim>\<open>np.gradient\<close> raises \<^verbatim>\<open>ValueError\<close> when an axis of the
  array has fewer than two elements. The gradient along the rows is the difference of
  the neighbouring rows at the first and at the last row, and half the difference of
  the next and the previous row elsewhere.
\<close>

definition np_gradient0 :: "real list list \<Rightarrow> real list list option" where
  "np_gradient0 g =
     (if length g < 2 \<or> width g < 2 then None
      else Some (map (\<lambda>i.
        if i = 0 then map2 (\<lambda>u v. u - v) (g ! 1) (g ! 0)
        else if i = length g - 1 then map2 (\<lambda>u v. u - v) (g ! i) (g ! (i - 1))
        else map2 (\<lambda>u v. (u - v) / 2) (g ! (i + 1)) (g ! (i - 1))) [0..<length g]))"

text \<open>
  The greyscale view: the array itself when it is 2-D, \<^verbatim>\<open>np.mean(image_array, axis=2)\<close>
  when it is 3-D. Over zero channels that mean is not a number, and the function
  cannot return normally any more: \<^verbatim>\<open>np.histogram\<close> raises on such samples and
  \<^verbatim>\<open>np.gradient\<close> raises when there are no samples. \<open>luma\<close> is \<open>None\<close> in that case.
\<close>

fun luma :: "int ndarray \<Rightarrow> real list list option" where
  "luma (Arr2 rows) = Some (map (map real_of_int) rows)"
| "luma (Arr3 rows) =
     (if shape (Arr3 rows) ! 2 = 0 then None
      else Some (map (map (\<lambda>p. np_mean (map real_of_int p))) rows))"

text \<open>The classification of line 56 of the source.\<close>

definition complexity_of :: "real \<Rightarrow> string" where
  "complexity_of e = (if e > 6 then ''high'' else if e > 4 then ''medium'' else ''low'')"

definition analyze_image :: "int ndarray \<Rightarrow> analysis option" where
  "analyze_image image_array =
     (case luma image_array of
        None \<Rightarrow> None
      | Some gray \<Rightarrow>
          (case np_gradient0 gray of
             None \<Rightarrow> None
           | Some edges \<Rightarrow>
               let flat = concat gray;
                   hist = np_histogram flat 256;
                   prob = map (\<lambda>h. real h / real (sum_list hist)) hist;
                   e = - sum_list (map (\<lambda>q. q * log 2 (q + 1 / 10 ^ 10)) prob)
               in Some \<lparr>entropy = e,
                         contrast = np_std flat,
                         brightness = np_mean flat,
                         edge_density =
                           real (length (filter (\<lambda>d. 10 < d) (concat edges))) / real (length flat),
                         complexity = complexity_of e\<rparr>))"

definition recommend_method :: "analysis \<Rightarrow> string" where
  "recommend_method a =
     (if complexity a = ''high'' then ''aes''
      else if contrast a > 50 then ''xor''
      else ''swap'')"

subsection \<open>Python floats\<close>

text \<open>
  The key is derived with float arithmetic, whose rounding decides the result. A Python
  float is an IEEE 754 binary64 number. \<open>fp\<close> is the outcome of a float operation: a
  finite double (the real number it stands for; the sign of a zero is not kept, since
  nothing below depends on it), an infinity or not-a-number.
\<close>

datatype fp = Fin real | PInf | NInf | NaN

text \<open>Rounding a real to the nearest integer, a tie to the even one.\<close>

definition round_half_even :: "real \<Rightarrow> int" where
  "round_half_even y =
     (let n = \<lfloor>y\<rfloor>; d = y - of_int n
      in if d < 1 / 2 then n else if 1 / 2 < d then n + 1 else if even n then n else n + 1)"

text \<open>
  Rounding a real to the nearest double (ties to even), as every float operation does
  with its exact result. A double has 53 significant bits: for \<open>x\<close> with
  \<open>2 ^ e \<le> \<bar>x\<bar> < 2 ^ (e + 1)\<close> the doubles around \<open>x\<close> are the multiples of
  \<open>2 ^ (e - 52)\<close>; below \<open>2 ^ - 1022\<close> (the subnormal range) they are the multiples of
  \<open>2 ^ - 1074\<close>. A result of \<open>2 ^ 1024\<close> or more is replaced by an infinity.
\<close>

definition round_double :: "real \<Rightarrow> fp" where
  "round_double x =
     (if x = 0 then Fin 0
      else
        let e = max \<lfloor>log 2 \<bar>x\<bar>\<rfloor> (- 1022);
            q = 2 powr of_int (e - 52);
            r = of_int (round_half_even (\<bar>x\<bar> / q)) * q
        in if 2 powr 1024 \<le> r then (if 0 < x then PInf else NInf)
           else Fin (sgn x * r))"

text \<open>The reals that are doubles: those that rounding leaves as they are.\<close>

definition is_double :: "real \<Rightarrow> bool" where
  "is_double x = (round_double x = Fin x)"

text \<open>The float product \<^verbatim>\<open>x * y\<close>.\<close>

fun fp_mul :: "fp \<Rightarrow> fp \<Rightarrow> fp" where
  "fp_mul (Fin x) (Fin y) = round_double (x * y)"
| "fp_mul NaN v = NaN"
| "fp_mul v NaN = NaN"
| "fp_mul (Fin x) PInf = (if x = 0 then NaN else if 0 < x then PInf else NInf)"
| "fp_mul (Fin x) NInf = (if x = 0 then NaN else if 0 < x then NInf else PInf)"
| "fp_mul PInf (Fin y) = (if y = 0 then NaN else if 0 < y then PInf else NInf)"
| "fp_mul NInf (Fin y) = (if y = 0 then NaN else if 0 < y then NInf else PInf)"
| "fp_mul PInf PInf = PInf"
| "fp_mul PInf NInf = NInf"
| "fp_mul NInf PInf = NInf"
| "fp_mul NInf NInf = PInf"

text \<open>
  The exceptions the arithmetic of \<^verbatim>\<open>generate_smart_key\<close> can raise. A Python integer
  that is multiplied with a float is converted to a float first (rounded to the nearest
  double; \<^verbatim>\<open>OverflowError\<close> when it is too large for one). \<^verbatim>\<open>int(x)\<close> of a float
  truncates towards zero; it raises \<^verbatim>\<open>OverflowError\<close> for an infinity and
  \<^verbatim>\<open>ValueError\<close> for not-a-number.
\<close>

datatype py_error = OverflowError | ValueError

definition float_of_int :: "int \<Rightarrow> py_error + real" where
  "float_of_int k = (case round_double (of_int k) of Fin x \<Rightarrow> Inr x | _ \<Rightarrow> Inl OverflowError)"

fun py_int :: "fp \<Rightarrow> py_error + int" where
  "py_int (Fin x) = Inr (if 0 \<le> x then \<lfloor>x\<rfloor> else \<lceil>x\<rceil>)"
| "py_int NaN = Inl ValueError"
| "py_int PInf = Inl OverflowError"
| "py_int NInf = Inl OverflowError"

text \<open>
  \<^verbatim>\<open>combined = int(base_key * entropy * contrast) % 256; return max(1, combined)\<close>: the
  product is \<^verbatim>\<open>(base_key * entropy) * contrast\<close>, each multiplication rounded. The
  fields of the analysis are the reals that the floats of the dict stand for.
\<close>

definition generate_smart_key :: "analysis \<Rightarrow> int \<Rightarrow> py_error + int" where
  "generate_smart_key image_analysis base_key =
     (case float_of_int base_key of
        Inl err \<Rightarrow> Inl err
      | Inr b \<Rightarrow>
          (case py_int (fp_mul (fp_mul (Fin b) (Fin (entropy image_analysis)))
                               (Fin (contrast image_analysis))) of
             Inl err \<Rightarrow> Inl err
           | Inr n \<Rightarrow> let combined = n mod 256 in Inr (max 1 combined)))"

section \<open>Samples in range\<close>

lemma int16_id: "- 32768 \<le> x \<Longrightarrow> x < 32768 \<Longrightarrow> int16 x = x"
  by (simp add: int16_def)

lemma uint8_id: "0 \<le> x \<Longrightarrow> x \<le> 255 \<Longrightarrow> uint8 x = x"
  by (simp add: uint8_def)

lemma astype_int16_id: "is_uint8 a \<Longrightarrow> astype_int16 a = a"
proof -
  assume u: "is_uint8 a"
  have "map_ndarray int16 a = map_ndarray (\<lambda>x. x) a"
    using u by (intro ndarray.map_cong refl) (auto simp: is_uint8_def int16_id)
  then show ?thesis by (simp add: astype_int16_def ndarray.map_ident)
qed

lemma clip_uint8_id: "is_uint8 a \<Longrightarrow> astype_uint8 (np_clip a 0 255) = a"
proof -
  assume u: "is_uint8 a"
  have "map_ndarray (uint8 \<circ> (\<lambda>x. min (max x 0) 255)) a = map_ndarray (\<lambda>x. x) a"
    using u by (intro ndarray.map_cong refl) (auto simp: is_uint8_def uint8_def)
  then show ?thesis
    by (simp add: astype_uint8_def np_clip_def ndarray.map_comp ndarray.map_ident)
qed

lemma is_uint8_map:
  "(\<And>x. x \<in> set_ndarray a \<Longrightarrow> 0 \<le> f x \<and> f x \<le> 255) \<Longrightarrow> is_uint8 (map_ndarray f a)"
  by (auto simp: is_uint8_def ndarray.set_map)

lemma and_254_range: "0 \<le> x \<Longrightarrow> x \<le> 255 \<Longrightarrow> 0 \<le> x AND 254 \<and> x AND (254::int) \<le> 255"
  by (metis AND_lower AND_upper1 order_trans)

lemma and_127: "(y::int) AND 127 = y mod 128"
proof -
  have "y AND mask 7 = y mod 2 ^ 7"
    by (simp only: take_bit_eq_mask [symmetric] take_bit_eq_mod)
  then show ?thesis by (simp add: mask_eq_exp_minus_1)
qed

lemma and_254_half: "0 \<le> x \<Longrightarrow> x \<le> 255 \<Longrightarrow> x AND 254 = 2 * (x div (2::int))"
proof -
  assume a: "0 \<le> x" "x \<le> 255"
  have "x AND 254 = 2 * ((x div 2) AND 127)"
    by (subst and_int_rec) simp
  also have "\<dots> = 2 * (x div 2)" using a by (simp add: and_127)
  finally show ?thesis .
qed

section \<open>Shape and range of the array operations\<close>

lemma xor_range: "0 \<le> x \<Longrightarrow> x \<le> 255 \<Longrightarrow> 0 \<le> k \<Longrightarrow> k \<le> 255 \<Longrightarrow> 0 \<le> x XOR k \<and> x XOR (k::int) \<le> 255"
  using XOR_upper [of x 8 k] by (simp add: XOR_lower)

lemma or_bit_range: "0 \<le> x \<Longrightarrow> x \<le> 255 \<Longrightarrow> 0 \<le> x OR of_bool b \<and> x OR (of_bool b :: int) \<le> 255"
proof -
  assume a: "0 \<le> x" "x \<le> 255"
  have b: "(of_bool b :: int) < 2 ^ 8" by (cases b) simp_all
  have "x < 2 ^ 8" using a by simp
  then have "x OR of_bool b < 2 ^ 8" using a b by (intro OR_upper) auto
  moreover have "0 \<le> x OR of_bool b" using a by simp
  ultimately show ?thesis by simp
qed

lemma set_ndarray_Arr3: "set_ndarray (Arr3 rows) = \<Union> (set ` set (concat rows))"
  by auto

lemma set_ndarray_Arr2: "set_ndarray (Arr2 rows) = set (concat rows)"
  by auto

lemma concat_map_map: "concat (map (map g) rows) = map g (concat rows)"
  by (simp add: map_concat)

lemma width_cong: "map length xs = map length ys \<Longrightarrow> width xs = width ys"
  by (cases xs; cases ys) (auto simp: width_def)

lemma rect2_cong:
  "map length xs = map length ys \<Longrightarrow> rect (Arr2 xs) = rect (Arr2 ys)"
proof -
  assume e: "map length xs = map length ys"
  have "rect (Arr2 zs) = (\<forall>n \<in> set (map length zs). n = width zs)" for zs :: "'c list list"
    by auto
  then show ?thesis using e width_cong [OF e] by metis
qed

lemma skeleton3:
  assumes "map (map length) xs = map (map length) ys"
  shows "map length xs = map length ys" and "map length (concat xs) = map length (concat ys)"
proof -
  have "map length (map (map length) xs) = map length (map (map length) ys)"
    using assms by simp
  then show "map length xs = map length ys" by (simp add: comp_def)
  have "concat (map (map length) xs) = concat (map (map length) ys)"
    using assms by simp
  then show "map length (concat xs) = map length (concat ys)" by (simp add: map_concat)
qed

lemma shape2_cong: "map length xs = map length ys \<Longrightarrow> shape (Arr2 xs) = shape (Arr2 ys)"
  using width_cong [of xs ys] map_eq_imp_length_eq [of length xs length ys] by simp

lemma shape3_cong:
  "map (map length) xs = map (map length) ys \<Longrightarrow> shape (Arr3 xs) = shape (Arr3 ys)"
  using skeleton3 [of xs ys] width_cong [of xs ys] width_cong [of "concat xs" "concat ys"]
    map_eq_imp_length_eq [of length xs length ys] by simp

lemma rect3_cong:
  assumes "map (map length) xs = map (map length) ys"
  shows "rect (Arr3 xs) = rect (Arr3 ys)"
proof -
  have "rect (Arr3 zs) = (rect (Arr2 zs) \<and> rect (Arr2 (concat zs)))" for zs :: "'c list list list"
    by simp
  then show ?thesis
    using skeleton3 [OF assms] rect2_cong [of xs ys] rect2_cong [of "concat xs" "concat ys"] by metis
qed


lemma imap_length [simp]: "length (imap f xs) = length xs"
  by (simp add: imap_def)

lemma imap_const: "imap (\<lambda>i. g) xs = map g xs"
proof -
  have "map g xs = map g (map snd (enumerate 0 xs))"
    by simp
  also have "\<dots> = map (\<lambda>p. g (snd p)) (enumerate 0 xs)"
    by (simp only: map_map comp_def)
  finally show ?thesis by (simp add: imap_def case_prod_unfold)
qed

lemma map_imap: "map g (imap f xs) = imap (\<lambda>i x. g (f i x)) xs"
  by (simp add: imap_def case_prod_unfold comp_def)

lemma imap_cong: "(\<And>i x. x \<in> set xs \<Longrightarrow> f i x = g i x) \<Longrightarrow> imap f xs = imap g xs"
  by (auto simp: imap_def in_set_enumerate_eq)

lemma set_imap: "y \<in> set (imap f xs) \<Longrightarrow> \<exists>i x. x \<in> set xs \<and> y = f i x"
  by (force simp: imap_def in_set_enumerate_eq)

lemma map_length_imap:
  "(\<And>i x. length (f i x) = length x) \<Longrightarrow> map length (imap f xs) = map length xs"
  by (simp add: map_imap imap_const)


lemma is_uint8_or_noise: "is_uint8 a \<Longrightarrow> is_uint8 (or_noise rnd a)"
proof (cases a)
  case (Arr2 rows)
  assume u: "is_uint8 a"
  show ?thesis
    unfolding Arr2 is_uint8_def
  proof
    fix y assume "y \<in> set_ndarray (or_noise rnd (Arr2 rows))"
    then obtain r' where r': "r' \<in> set (imap (\<lambda>i. imap (\<lambda>j x. x OR of_bool (rnd [i, j]))) rows)" "y \<in> set r'"
      by auto
    from set_imap [OF r'(1)] obtain i r where r: "r \<in> set rows" "r' = imap (\<lambda>j x. x OR of_bool (rnd [i, j])) r"
      by blast
    from set_imap [OF r'(2) [unfolded r(2)]] obtain j x where x: "x \<in> set r" "y = x OR of_bool (rnd [i, j])"
      by blast
    have "0 \<le> x \<and> x \<le> 255" using u r(1) x(1) by (auto simp: Arr2 is_uint8_def)
    then show "0 \<le> y \<and> y \<le> 255" unfolding x(2) by (intro or_bit_range) auto
  qed
next
  case (Arr3 rows)
  assume u: "is_uint8 a"
  show ?thesis
    unfolding Arr3 is_uint8_def
  proof
    fix y assume "y \<in> set_ndarray (or_noise rnd (Arr3 rows))"
    then obtain r' p' where r': "r' \<in> set (imap (\<lambda>i. imap (\<lambda>j. imap (\<lambda>c x. x OR of_bool (rnd [i, j, c])))) rows)"
        "p' \<in> set r'" "y \<in> set p'"
      by auto
    from set_imap [OF r'(1)] obtain i r where r: "r \<in> set rows" "r' = imap (\<lambda>j. imap (\<lambda>c x. x OR of_bool (rnd [i, j, c]))) r"
      by blast
    from set_imap [OF r'(2) [unfolded r(2)]] obtain j p where p: "p \<in> set r" "p' = imap (\<lambda>c x. x OR of_bool (rnd [i, j, c])) p"
      by blast
    from set_imap [OF r'(3) [unfolded p(2)]] obtain c x where x: "x \<in> set p" "y = x OR of_bool (rnd [i, j, c])"
      by blast
    have "0 \<le> x \<and> x \<le> 255" using u r(1) p(1) x(1) by (auto simp: Arr3 is_uint8_def)
    then show "0 \<le> y \<and> y \<le> 255" unfolding x(2) by (intro or_bit_range) auto
  qed
qed

lemma is_uint8_map_channel1:
  assumes "is_uint8 a" and "\<And>x. 0 \<le> f x \<and> f x \<le> 255"
  shows "is_uint8 (map_channel1 f a)"
proof (cases a)
  case (Arr2 rows)
  then show ?thesis using assms(1) by simp
next
  case (Arr3 rows)
  show ?thesis
    unfolding Arr3 is_uint8_def
  proof
    fix y assume "y \<in> set_ndarray (map_channel1 f (Arr3 rows))"
    then obtain r p where p: "r \<in> set rows" "p \<in> set r" "y \<in> set (p[1 := f (p ! 1)])"
      by auto
    then have "y = f (p ! 1) \<or> y \<in> set p"
      using set_update_subset_insert [of p 1 "f (p ! 1)"] by auto
    then show "0 \<le> y \<and> y \<le> 255"
      using assms p(1,2) by (auto simp: Arr3 is_uint8_def)
  qed
qed

lemma rect3_pixel_length:
  "rect (Arr3 rows) \<Longrightarrow> r \<in> set rows \<Longrightarrow> p \<in> set r \<Longrightarrow> length p = shape (Arr3 rows) ! 2"
  by auto

lemma is_uint8_swap_channels:
  assumes "is_uint8 a" and "rect a" and "length (shape a) = 3 \<Longrightarrow> 3 \<le> shape a ! 2"
  shows "is_uint8 (swap_channels a)"
proof (cases a)
  case (Arr2 rows)
  then show ?thesis using assms(1) by simp
next
  case (Arr3 rows)
  show ?thesis
    unfolding Arr3 is_uint8_def
  proof
    fix y assume "y \<in> set_ndarray (swap_channels (Arr3 rows))"
    then obtain r p where p: "r \<in> set rows" "p \<in> set r" "y \<in> set (p[0 := p ! 2, 2 := p ! 0])"
      by auto
    have l: "3 \<le> length p"
      using rect3_pixel_length [OF assms(2) [unfolded Arr3] p(1,2)] assms(3) by (simp add: Arr3)
    have "y = p ! 0 \<or> y = p ! 2 \<or> y \<in> set p"
      using p(3) set_update_subset_insert [of "p[0 := p ! 2]" 2 "p ! 0"]
        set_update_subset_insert [of p 0 "p ! 2"] by auto
    moreover have "p ! 0 \<in> set p" by (rule nth_mem) (use l in linarith)
    moreover have "p ! 2 \<in> set p" by (rule nth_mem) (use l in linarith)
    ultimately have "y \<in> set p" by auto
    then show "0 \<le> y \<and> y \<le> 255"
      using assms(1) p(1,2) by (auto simp: Arr3 is_uint8_def)
  qed
qed


lemma encrypt_pixels_uint8:
  assumes u: "is_uint8 B" and r: "rect B" and k: "1 \<le> key" "key \<le> 255"
  shows "is_uint8 (encrypt_pixels B key method rnd)"
proof -
  have swap: "is_uint8 (map_channel1 (\<lambda>x. int16 (x + key) mod 256) (swap_channels B))"
    if "length (shape B) = 3 \<and> 3 \<le> shape B ! 2"
    using that by (intro is_uint8_map_channel1 is_uint8_swap_channels u r) auto
  have xor: "is_uint8 (map_ndarray (\<lambda>x. int16 (x XOR key)) B)"
  proof (rule is_uint8_map)
    fix x assume "x \<in> set_ndarray B"
    then have x: "0 \<le> x" "x \<le> 255" using u by (auto simp: is_uint8_def)
    have b: "0 \<le> x XOR key \<and> x XOR key \<le> 255" using x k by (intro xor_range) auto
    have "int16 (x XOR key) = x XOR key" by (rule int16_id) (use b in linarith)+
    then show "0 \<le> int16 (x XOR key) \<and> int16 (x XOR key) \<le> 255" using b by simp
  qed
  have shift: "is_uint8 (map_ndarray (\<lambda>x. int16 (push_bit (nat (key mod 8)) x) mod 256) B)"
    by (rule is_uint8_map) simp
  have aes: "is_uint8 (map_ndarray (\<lambda>x. int16 (x + key * 3) mod 256) (np_roll B key))"
    by (rule is_uint8_map) simp
  have steg: "is_uint8 (or_noise rnd (map_ndarray (\<lambda>x. x AND 254) B))"
    using u by (intro is_uint8_or_noise is_uint8_map and_254_range) (auto simp: is_uint8_def)
  show ?thesis
    using swap xor shift aes steg u
    by (simp add: encrypt_pixels_def astype_int16_id [OF u])
qed

lemma decrypt_pixels_uint8:
  assumes u: "is_uint8 B" and r: "rect B" and k: "1 \<le> key" "key \<le> 255"
  shows "is_uint8 (decrypt_pixels B key method)"
proof -
  have swap: "is_uint8 (map_channel1 (\<lambda>x. int16 (x - key) mod 256) (swap_channels B))"
    if "length (shape B) = 3 \<and> 3 \<le> shape B ! 2"
    using that by (intro is_uint8_map_channel1 is_uint8_swap_channels u r) auto
  have xor: "is_uint8 (map_ndarray (\<lambda>x. int16 (x XOR key)) B)"
  proof (rule is_uint8_map)
    fix x assume "x \<in> set_ndarray B"
    then have x: "0 \<le> x" "x \<le> 255" using u by (auto simp: is_uint8_def)
    have b: "0 \<le> x XOR key \<and> x XOR key \<le> 255" using x k by (intro xor_range) auto
    have "int16 (x XOR key) = x XOR key" by (rule int16_id) (use b in linarith)+
    then show "0 \<le> int16 (x XOR key) \<and> int16 (x XOR key) \<le> 255" using b by simp
  qed
  have shift: "is_uint8 (map_ndarray (\<lambda>x. drop_bit (nat (key mod 8)) x mod 256) B)"
    by (rule is_uint8_map) simp
  have aes: "is_uint8 (map_ndarray (\<lambda>x. int16 (x - key * 3) mod 256) (np_roll B (- key)))"
    by (rule is_uint8_map) simp
  have steg: "is_uint8 (map_ndarray (\<lambda>x. x AND 254) B)"
    using u by (intro is_uint8_map and_254_range) (auto simp: is_uint8_def)
  show ?thesis
    using swap xor shift aes steg u
    by (simp add: decrypt_pixels_def astype_int16_id [OF u])
qed

section \<open>Shape of the results\<close>

lemma shape_map_ndarray [simp]: "shape (map_ndarray f a) = shape a"
proof (cases a)
  case (Arr2 rows)
  show ?thesis unfolding Arr2 ndarray.map by (rule shape2_cong) (simp add: comp_def)
next
  case (Arr3 rows)
  show ?thesis unfolding Arr3 ndarray.map by (rule shape3_cong) (simp add: comp_def)
qed

lemma rect_map_ndarray [simp]: "rect (map_ndarray f a) = rect a"
proof (cases a)
  case (Arr2 rows)
  show ?thesis unfolding Arr2 ndarray.map by (rule rect2_cong) (simp add: comp_def)
next
  case (Arr3 rows)
  show ?thesis unfolding Arr3 ndarray.map by (rule rect3_cong) (simp add: comp_def)
qed

lemma shape_swap_channels [simp]: "shape (swap_channels a) = shape a"
proof (cases a)
  case (Arr2 rows)
  show ?thesis unfolding Arr2 by simp
next
  case (Arr3 rows)
  show ?thesis unfolding Arr3 swap_channels.simps by (rule shape3_cong) (simp add: comp_def)
qed

lemma rect_swap_channels [simp]: "rect (swap_channels a) = rect a"
proof (cases a)
  case (Arr2 rows)
  show ?thesis unfolding Arr2 by simp
next
  case (Arr3 rows)
  show ?thesis unfolding Arr3 swap_channels.simps by (rule rect3_cong) (simp add: comp_def)
qed

lemma shape_map_channel1 [simp]: "shape (map_channel1 f a) = shape a"
proof (cases a)
  case (Arr2 rows)
  show ?thesis unfolding Arr2 by simp
next
  case (Arr3 rows)
  show ?thesis unfolding Arr3 map_channel1.simps by (rule shape3_cong) (simp add: comp_def)
qed

lemma rect_map_channel1 [simp]: "rect (map_channel1 f a) = rect a"
proof (cases a)
  case (Arr2 rows)
  show ?thesis unfolding Arr2 by simp
next
  case (Arr3 rows)
  show ?thesis unfolding Arr3 map_channel1.simps by (rule rect3_cong) (simp add: comp_def)
qed

lemma skeleton_or_noise2:
  "map length (imap (\<lambda>i. imap (f i)) rows) = map length rows"
  by (rule map_length_imap) simp

lemma skeleton_or_noise3:
  "map (map length) (imap (\<lambda>i. imap (\<lambda>j. imap (f i j))) rows) = map (map length) rows"
proof -
  have "map (map length) (imap (\<lambda>i. imap (\<lambda>j. imap (f i j))) rows)
      = imap (\<lambda>i r. map length (imap (\<lambda>j. imap (f i j)) r)) rows"
    by (rule map_imap)
  also have "\<dots> = imap (\<lambda>i. map length) rows"
    by (rule imap_cong) (simp add: map_length_imap)
  finally show ?thesis by (simp add: imap_const)
qed

lemma shape_or_noise [simp]: "shape (or_noise rnd a) = shape a"
proof (cases a)
  case (Arr2 rows)
  show ?thesis unfolding Arr2 or_noise.simps by (rule shape2_cong) (rule skeleton_or_noise2)
next
  case (Arr3 rows)
  show ?thesis unfolding Arr3 or_noise.simps by (rule shape3_cong) (rule skeleton_or_noise3)
qed

lemma rect_or_noise [simp]: "rect (or_noise rnd a) = rect a"
proof (cases a)
  case (Arr2 rows)
  show ?thesis unfolding Arr2 or_noise.simps by (rule rect2_cong) (rule skeleton_or_noise2)
next
  case (Arr3 rows)
  show ?thesis unfolding Arr3 or_noise.simps by (rule rect3_cong) (rule skeleton_or_noise3)
qed

lemma roll_rows_rotate:
  "xs \<noteq> [] \<Longrightarrow> roll_rows xs k = rotate (nat ((- k) mod int (length xs))) xs"
proof -
  assume ne: "xs \<noteq> []"
  define n where "n = length xs"
  have n: "0 < n" using ne by (simp add: n_def)
  show ?thesis
  proof (cases "k mod int n = 0")
    case True
    then have "(- k) mod int n = 0" by (simp add: mod_minus_eq [symmetric] del: mod_minus_eq) 
    then show ?thesis using True n by (simp add: roll_rows_def Let_def n_def [symmetric])
  next
    case False
    have b: "0 \<le> k mod int n" "k mod int n < int n" using n by simp_all
    have m: "(- k) mod int n = int n - k mod int n"
      using False n by (simp add: zmod_zminus1_eq_if)
    have l: "nat (int n - k mod int n) = n - nat (k mod int n)" using b by linarith
    have lt: "n - nat (k mod int n) < n" using b False by linarith
    have nz: "nat (k mod int n) \<noteq> 0" using b False by linarith
    show ?thesis
      using nz n lt
      by (simp add: roll_rows_def Let_def n_def [symmetric] m l rotate_drop_take)
  qed
qed

lemma roll_rows_Nil [simp]: "roll_rows [] k = []"
  by (simp add: roll_rows_def)

lemma length_roll_rows [simp]: "length (roll_rows xs k) = length xs"
  by (cases "xs = []") (simp_all add: roll_rows_rotate)

lemma set_roll_rows [simp]: "set (roll_rows xs k) = set xs"
  by (cases "xs = []") (simp_all add: roll_rows_rotate)

lemma roll_rows_inverse: "roll_rows (roll_rows xs k) (- k) = xs"
proof (cases "xs = []")
  case True
  then show ?thesis by simp
next
  case False
  define n where "n = length xs"
  have n: "0 < n" using False by (simp add: n_def)
  have ne: "roll_rows xs k \<noteq> []" using False by (metis length_roll_rows length_0_conv)
  have "(nat (k mod int n) + nat ((- k) mod int n)) mod n = 0"
  proof -
    have "int (nat (k mod int n) + nat ((- k) mod int n)) = k mod int n + (- k) mod int n"
      using n by simp
    also have "\<dots> mod int n = 0"
      by (simp add: mod_add_eq)
    finally have "int ((nat (k mod int n) + nat ((- k) mod int n)) mod n) = 0"
      by (simp add: zmod_int)
    then show ?thesis by simp
  qed
  then have "rotate (nat (k mod int n) + nat ((- k) mod int n)) xs = xs"
    by (intro rotate_id) (simp add: n_def)
  then show ?thesis
    using roll_rows_rotate [OF ne, of "- k"] roll_rows_rotate [OF False, of k]
    by (simp add: n_def rotate_rotate)
qed

lemma roll_rows_map: "roll_rows (map f xs) k = map f (roll_rows xs k)"
  by (simp add: roll_rows_def Let_def drop_map take_map)

lemma width_const: "xs \<noteq> [] \<Longrightarrow> \<forall>r \<in> set xs. length r = n \<Longrightarrow> width xs = n"
  by (cases xs) (auto simp: width_def)

lemma width_set_eq:
  assumes "set xs = set ys" and "\<forall>r \<in> set xs. length r = n"
  shows "width xs = width ys"
proof (cases "xs = []")
  case True
  then show ?thesis using assms(1) by simp
next
  case False
  then have "ys \<noteq> []" using assms(1) by auto
  then show ?thesis using False assms width_const [of xs n] width_const [of ys n] by simp
qed

lemma np_roll_shape_rect:
  assumes "rect a"
  shows "shape (np_roll a k) = shape a \<and> rect (np_roll a k)"
proof (cases a)
  case (Arr2 rows)
  have w: "width (roll_rows rows k) = width rows"
    using assms by (intro width_set_eq [where n = "width rows"]) (auto simp: Arr2)
  show ?thesis using assms w by (simp add: Arr2)
next
  case (Arr3 rows)
  have w: "width (roll_rows rows k) = width rows"
    using assms by (intro width_set_eq [where n = "width rows"]) (auto simp: Arr3)
  have c: "width (concat (roll_rows rows k)) = width (concat rows)"
    using assms by (intro width_set_eq [where n = "width (concat rows)"]) (auto simp: Arr3)
  show ?thesis using assms w c by (simp add: Arr3)
qed

lemma np_roll_map: "np_roll (map_ndarray f a) k = map_ndarray f (np_roll a k)"
  by (cases a) (simp_all add: roll_rows_map)

lemma np_roll_inverse: "np_roll (np_roll a k) (- k) = a"
  by (cases a) (simp_all add: roll_rows_inverse)

lemma encrypt_pixels_shape:
  assumes "rect B"
  shows "shape (encrypt_pixels B key method rnd) = shape B \<and> rect (encrypt_pixels B key method rnd)"
  using assms np_roll_shape_rect [of "astype_int16 B" key]
  by (simp add: encrypt_pixels_def Let_def astype_int16_def)

lemma decrypt_pixels_shape:
  assumes "rect B"
  shows "shape (decrypt_pixels B key method) = shape B \<and> rect (decrypt_pixels B key method)"
  using assms np_roll_shape_rect [of "astype_int16 B" "- key"]
  by (simp add: decrypt_pixels_def Let_def astype_int16_def)

lemma encrypt_image_shape:
  "rect B \<Longrightarrow> shape (encrypt_image_from_array B key method rnd) = shape B
     \<and> rect (encrypt_image_from_array B key method rnd)"
  by (simp add: encrypt_image_from_array_def astype_uint8_def np_clip_def encrypt_pixels_shape)

lemma decrypt_image_shape:
  "rect B \<Longrightarrow> shape (decrypt_image_from_array B key method) = shape B
     \<and> rect (decrypt_image_from_array B key method)"
  by (simp add: decrypt_image_from_array_def astype_uint8_def np_clip_def decrypt_pixels_shape)

section \<open>Round trips of the invertible methods\<close>

lemma encrypt_image_eq_pixels:
  "is_uint8 B \<Longrightarrow> rect B \<Longrightarrow> 1 \<le> key \<Longrightarrow> key \<le> 255 \<Longrightarrow>
   encrypt_image_from_array B key method rnd = encrypt_pixels B key method rnd"
  by (simp add: encrypt_image_from_array_def clip_uint8_id encrypt_pixels_uint8)

lemma decrypt_image_eq_pixels:
  "is_uint8 B \<Longrightarrow> rect B \<Longrightarrow> 1 \<le> key \<Longrightarrow> key \<le> 255 \<Longrightarrow>
   decrypt_image_from_array B key method = decrypt_pixels B key method"
  by (simp add: decrypt_image_from_array_def clip_uint8_id decrypt_pixels_uint8)

lemma map_id_iff: "(map f xs = xs) = (\<forall>x \<in> set xs. f x = x)"
  by (induction xs) auto

lemma map_ndarray_id_iff: "(map_ndarray f a = a) = (\<forall>x \<in> set_ndarray a. f x = x)"
  by (cases a) (auto simp: map_id_iff)

lemma xor_twice: "(x XOR k) XOR k = (x::int)"
  by (simp add: xor.assoc)

lemma xor_sample:
  assumes "0 \<le> x" "x \<le> 255" "1 \<le> key" "key \<le> 255"
  shows "int16 (x XOR key) = x XOR key"
proof -
  have b: "0 \<le> x XOR key \<and> x XOR key \<le> 255" using assms by (intro xor_range) auto
  show ?thesis by (rule int16_id) (use b in linarith)+
qed

lemma xor_pixels:
  assumes u: "is_uint8 B" and k: "1 \<le> key" "key \<le> 255"
  shows "map_ndarray (\<lambda>x. int16 (x XOR key)) B = map_ndarray (\<lambda>x. x XOR key) B"
  using u k by (intro ndarray.map_cong refl xor_sample) (auto simp: is_uint8_def)

lemma xor_roundtrip:
  assumes u: "is_uint8 B" and r: "rect B" and k: "1 \<le> key" "key \<le> 255"
  shows "decrypt_image_from_array (encrypt_image_from_array B key ''xor'' rnd) key ''xor'' = B"
proof -
  let ?E = "encrypt_image_from_array B key ''xor'' rnd"
  have e: "?E = map_ndarray (\<lambda>x. x XOR key) B"
    using u r k by (simp add: encrypt_image_eq_pixels encrypt_pixels_def astype_int16_id xor_pixels)
  have ue: "is_uint8 ?E"
    using u r k by (simp add: encrypt_image_eq_pixels encrypt_pixels_uint8)
  have re: "rect ?E" using r by (simp add: encrypt_image_shape)
  have "decrypt_image_from_array ?E key ''xor'' = map_ndarray (\<lambda>x. x XOR key) ?E"
    using ue re k by (simp add: decrypt_image_eq_pixels decrypt_pixels_def astype_int16_id xor_pixels)
  also have "\<dots> = B"
    by (simp add: e ndarray.map_comp comp_def xor_twice ndarray.map_ident)
  finally show ?thesis .
qed


lemma aes_sample:
  assumes "0 \<le> x" "x \<le> 255" "1 \<le> key" "key \<le> 255"
  shows "int16 (int16 (x + key * 3) mod 256 - key * 3) mod 256 = x"
proof -
  have a: "int16 (x + key * 3) = x + key * 3"
    by (rule int16_id) (use assms in linarith)+
  have r: "0 \<le> (x + key * 3) mod 256" "(x + key * 3) mod 256 < 256" by simp_all
  have b: "int16 ((x + key * 3) mod 256 - key * 3) = (x + key * 3) mod 256 - key * 3"
    by (rule int16_id) (use assms r in linarith)+
  have "((x + key * 3) mod 256 - key * 3) mod 256 = (x + key * 3 - key * 3) mod 256"
    by (simp only: mod_diff_left_eq)
  also have "\<dots> = x" using assms by simp
  finally show ?thesis by (simp only: a b)
qed

lemma aes_roundtrip:
  assumes u: "is_uint8 B" and r: "rect B" and k: "1 \<le> key" "key \<le> 255"
  shows "decrypt_image_from_array (encrypt_image_from_array B key ''aes'' rnd) key ''aes'' = B"
proof -
  let ?E = "encrypt_image_from_array B key ''aes'' rnd"
  let ?F = "\<lambda>x. int16 (x + key * 3) mod 256"
  let ?G = "\<lambda>x. int16 (x - key * 3) mod 256"
  have e: "?E = map_ndarray ?F (np_roll B key)"
    using u r k by (simp add: encrypt_image_eq_pixels encrypt_pixels_def astype_int16_id)
  have ue: "is_uint8 ?E"
    using u r k by (simp add: encrypt_image_eq_pixels encrypt_pixels_uint8)
  have re: "rect ?E" using r by (simp add: encrypt_image_shape)
  have "decrypt_image_from_array ?E key ''aes'' = map_ndarray ?G (np_roll ?E (- key))"
    using ue re k by (simp add: decrypt_image_eq_pixels decrypt_pixels_def astype_int16_id)
  also have "np_roll ?E (- key) = map_ndarray ?F B"
    by (simp only: e np_roll_map np_roll_inverse)
  also have "map_ndarray ?G (map_ndarray ?F B) = map_ndarray (\<lambda>x. ?G (?F x)) B"
    by (simp add: ndarray.map_comp comp_def)
  also have "\<dots> = B"
    unfolding map_ndarray_id_iff
  proof
    fix x assume "x \<in> set_ndarray B"
    then have "0 \<le> x" "x \<le> 255" using u by (auto simp: is_uint8_def)
    then show "?G (?F x) = x" using k by (intro aes_sample)
  qed
  finally show ?thesis .
qed

lemma swap_pixel:
  assumes l: "3 \<le> length p" and x: "0 \<le> p ! 1" "p ! 1 \<le> 255" and k: "1 \<le> key" "key \<le> 255"
  defines "q \<equiv> (p[0 := p ! 2, 2 := p ! 0])[1 := int16 (p[0 := p ! 2, 2 := p ! 0] ! 1 + key) mod 256]"
  shows "(q[0 := q ! 2, 2 := q ! 0])[1 := int16 (q[0 := q ! 2, 2 := q ! 0] ! 1 - key) mod 256] = p"
proof -
  have a: "int16 (p ! 1 + key) = p ! 1 + key"
    by (rule int16_id) (use x k in linarith)+
  have r: "0 \<le> (p ! 1 + key) mod 256" "(p ! 1 + key) mod 256 < 256" by simp_all
  have b: "int16 ((p ! 1 + key) mod 256 - key) = (p ! 1 + key) mod 256 - key"
    by (rule int16_id) (use k r in linarith)+
  have "((p ! 1 + key) mod 256 - key) mod 256 = (p ! 1 + key - key) mod 256"
    by (simp only: mod_diff_left_eq)
  then have c: "((p ! 1 + key) mod 256 - key) mod 256 = p ! 1" using x by simp
  have l0: "0 < length p" "1 < length p" "2 < length p" using l by linarith+
  have q0: "q ! 0 = p ! 2" and q2: "q ! 2 = p ! 0" and q1: "q ! 1 = (p ! 1 + key) mod 256"
    and lq: "length q = length p"
    using l0 by (simp_all add: q_def a del: One_nat_def)
  show ?thesis
  proof (rule nth_equalityI)
    show "length ((q[0 := q ! 2, 2 := q ! 0])[1 := int16 (q[0 := q ! 2, 2 := q ! 0] ! 1 - key) mod 256]) = length p"
      by (simp add: lq)
  next
    fix i assume "i < length ((q[0 := q ! 2, 2 := q ! 0])[1 := int16 (q[0 := q ! 2, 2 := q ! 0] ! 1 - key) mod 256])"
    then have i: "i < length p" by (simp add: lq)
    consider "i = 0" | "i = 1" | "i = 2" | "3 \<le> i" by linarith
    then show "(q[0 := q ! 2, 2 := q ! 0])[1 := int16 (q[0 := q ! 2, 2 := q ! 0] ! 1 - key) mod 256] ! i = p ! i"
    proof cases
      case 1
      then show ?thesis using l0 by (simp add: lq q2 del: One_nat_def)
    next
      case 2
      then show ?thesis using l0 by (simp add: lq q1 b c del: One_nat_def)
    next
      case 3
      then show ?thesis using l0 by (simp add: lq q0 del: One_nat_def)
    next
      case 4
      then have "q ! i = p ! i" using i by (simp add: q_def del: One_nat_def)
      then show ?thesis using 4 i by (simp add: lq del: One_nat_def)
    qed
  qed
qed


lemma swap_roundtrip:
  assumes u: "is_uint8 B" and r: "rect B" and k: "1 \<le> key" "key \<le> 255"
  shows "decrypt_image_from_array (encrypt_image_from_array B key ''swap'' rnd) key ''swap'' = B"
proof (cases "length (shape B) = 3 \<and> 3 \<le> shape B ! 2")
  case False
  have "encrypt_image_from_array B key ''swap'' rnd = B"
    using u r k False by (auto simp: encrypt_image_eq_pixels encrypt_pixels_def astype_int16_id)
  moreover have "decrypt_image_from_array B key ''swap'' = B"
    using u r k False by (auto simp: decrypt_image_eq_pixels decrypt_pixels_def astype_int16_id)
  ultimately show ?thesis by simp
next
  case True
  let ?E = "encrypt_image_from_array B key ''swap'' rnd"
  let ?f = "\<lambda>x. int16 (x + key) mod 256"
  let ?g = "\<lambda>x. int16 (x - key) mod 256"
  obtain rows where B: "B = Arr3 rows" using True by (cases B) auto
  have e: "?E = map_channel1 ?f (swap_channels B)"
    using u r k True by (simp add: encrypt_image_eq_pixels encrypt_pixels_def astype_int16_id)
  have ue: "is_uint8 ?E"
    using u r k by (simp add: encrypt_image_eq_pixels encrypt_pixels_uint8)
  have re: "rect ?E" and se: "shape ?E = shape B" using r by (simp_all add: encrypt_image_shape)
  have "decrypt_image_from_array ?E key ''swap'' = map_channel1 ?g (swap_channels ?E)"
    using ue re k True se
    by (simp add: decrypt_image_eq_pixels decrypt_pixels_def astype_int16_id)
  also have "\<dots> = B"
  proof -
    define swp where "swp = (\<lambda>p::int list. p[0 := p ! 2, 2 := p ! 0])"
    define en where "en = (\<lambda>p::int list. p[1 := int16 (p ! 1 + key) mod 256])"
    define de where "de = (\<lambda>p::int list. p[1 := int16 (p ! 1 - key) mod 256])"
    have sc: "swap_channels (Arr3 xs) = Arr3 (map (map swp) xs)" for xs
      by (simp only: swp_def swap_channels.simps)
    have m1: "map_channel1 ?f (Arr3 xs) = Arr3 (map (map en) xs)" for xs
      by (simp only: en_def map_channel1.simps)
    have m2: "map_channel1 ?g (Arr3 xs) = Arr3 (map (map de) xs)" for xs
      by (simp only: de_def map_channel1.simps)
    have "map_channel1 ?g (swap_channels ?E)
        = Arr3 (map (map (\<lambda>p. de (swp (en (swp p))))) rows)"
      by (simp only: e [unfolded B] B sc m1 m2 map_map comp_def)
    also have "map (map (\<lambda>p. de (swp (en (swp p))))) rows = rows"
    proof (intro map_idI)
      fix row p assume rp: "row \<in> set rows" "p \<in> set row"
      have l: "3 \<le> length p"
        using rect3_pixel_length [OF r [unfolded B] rp] True by (simp add: B)
      then have "p ! 1 \<in> set p" by (intro nth_mem) linarith
      then have x: "0 \<le> p ! 1" "p ! 1 \<le> 255" using u rp by (auto simp: B is_uint8_def)
      show "de (swp (en (swp p))) = p"
        unfolding swp_def en_def de_def by (rule swap_pixel [OF l x k])
    qed
    finally show ?thesis by (simp only: B)
  qed
  finally show ?thesis .
qed

section \<open>The shift method and unrecognised methods\<close>

lemma shift_amount: "nat (key mod 8) \<le> 7"
proof -
  have "key mod 8 < 8" by simp
  then show ?thesis by linarith
qed

lemma shift_sample:
  fixes key :: int
  assumes "0 \<le> x" "x \<le> 255"
  defines "s \<equiv> nat (key mod 8)"
  shows "int16 (push_bit s x) mod 256 = push_bit s (x mod 2 ^ (8 - s))"
    and "drop_bit s (int16 (push_bit s x) mod 256) mod 256 = x mod 2 ^ (8 - s)"
proof -
  have s: "s \<le> 7" unfolding s_def by (rule shift_amount)
  have "(2::int) ^ s \<le> 2 ^ 7" using s by (intro power_increasing) auto
  then have "x * 2 ^ s \<le> 255 * 2 ^ 7" using assms(1,2) by (intro mult_mono) auto
  then have "push_bit s x < 32768" by (simp add: push_bit_eq_mult)
  moreover have "0 \<le> push_bit s x" using assms(1) by simp
  ultimately have a: "int16 (push_bit s x) = push_bit s x" by (intro int16_id) linarith+
  have "push_bit s x mod 256 = take_bit 8 (push_bit s x)" by (simp add: take_bit_eq_mod)
  also have "\<dots> = push_bit s (take_bit (8 - s) x)" by (simp add: take_bit_push_bit)
  finally show b: "int16 (push_bit s x) mod 256 = push_bit s (x mod 2 ^ (8 - s))"
    by (simp add: a take_bit_eq_mod)
  have c: "drop_bit s (push_bit s (x mod 2 ^ (8 - s))) = x mod 2 ^ (8 - s)"
    by (simp add: drop_bit_push_bit_int)
  have "(2::int) ^ (8 - s) \<le> 2 ^ 8" by (intro power_increasing) auto
  then have p: "(2::int) ^ (8 - s) \<le> 256" by simp
  have m1: "x mod 2 ^ (8 - s) < 2 ^ (8 - s)" and m0: "0 \<le> x mod 2 ^ (8 - s)" by simp_all
  have "x mod 2 ^ (8 - s) < 256" using p m1 by linarith
  then have "x mod 2 ^ (8 - s) mod 256 = x mod 2 ^ (8 - s)" by (rule mod_pos_pos_trivial [OF m0])
  then show "drop_bit s (int16 (push_bit s x) mod 256) mod 256 = x mod 2 ^ (8 - s)"
    by (simp only: b c)
qed

lemma shift_roundtrip:
  assumes u: "is_uint8 B" and r: "rect B" and k: "1 \<le> key" "key \<le> 255"
  shows "decrypt_image_from_array (encrypt_image_from_array B key ''shift'' rnd) key ''shift''
       = map_ndarray (\<lambda>x. x mod 2 ^ (8 - nat (key mod 8))) B"
proof -
  let ?E = "encrypt_image_from_array B key ''shift'' rnd"
  let ?F = "\<lambda>x. int16 (push_bit (nat (key mod 8)) x) mod 256"
  let ?G = "\<lambda>x. drop_bit (nat (key mod 8)) x mod 256"
  have e: "?E = map_ndarray ?F B"
    using u r k by (simp add: encrypt_image_eq_pixels encrypt_pixels_def astype_int16_id)
  have ue: "is_uint8 ?E"
    using u r k by (simp add: encrypt_image_eq_pixels encrypt_pixels_uint8)
  have re: "rect ?E" using r by (simp add: encrypt_image_shape)
  have "decrypt_image_from_array ?E key ''shift'' = map_ndarray ?G ?E"
    using ue re k by (simp add: decrypt_image_eq_pixels decrypt_pixels_def astype_int16_id)
  also have "\<dots> = map_ndarray (\<lambda>x. ?G (?F x)) B"
    by (simp add: e ndarray.map_comp comp_def)
  also have "\<dots> = map_ndarray (\<lambda>x. x mod 2 ^ (8 - nat (key mod 8))) B"
  proof (intro ndarray.map_cong refl)
    fix x assume "x \<in> set_ndarray B"
    then have "0 \<le> x" "x \<le> 255" using u by (auto simp: is_uint8_def)
    then show "?G (?F x) = x mod 2 ^ (8 - nat (key mod 8))" by (rule shift_sample(2))
  qed
  finally show ?thesis .
qed

lemma shift_roundtrip_iff:
  assumes u: "is_uint8 B" and r: "rect B" and k: "1 \<le> key" "key \<le> 255"
  shows "(decrypt_image_from_array (encrypt_image_from_array B key ''shift'' rnd) key ''shift'' = B)
       = (\<forall>x \<in> set_ndarray B. x < 2 ^ (8 - nat (key mod 8)))"
proof -
  have "(x mod 2 ^ (8 - nat (key mod 8)) = x) = (x < 2 ^ (8 - nat (key mod 8)))"
    if "x \<in> set_ndarray B" for x
  proof -
    have "0 \<le> x" using that u by (auto simp: is_uint8_def)
    then show ?thesis
      by (metis mod_pos_pos_trivial pos_mod_bound zero_less_numeral zero_less_power)
  qed
  then show ?thesis
    by (simp add: shift_roundtrip [OF u r k] map_ndarray_id_iff)
qed

lemma unknown_method:
  assumes "is_uint8 B" and "method \<notin> set methods"
  shows "encrypt_image_from_array B key method rnd = B"
    and "decrypt_image_from_array B key method = B"
  using assms
  by (simp_all add: encrypt_image_from_array_def decrypt_image_from_array_def
      encrypt_pixels_def decrypt_pixels_def methods_def astype_int16_id clip_uint8_id)

section \<open>The store and the analyzer\<close>

lemma encrypt_st_frame:
  assumes "mem s a = Some B" and "a < next_addr s"
  shows "\<exists>r s'. encrypt_image_from_array_st s a key method rnd = Some (r, s')
           \<and> next_addr s \<le> r
           \<and> mem s' r = Some (encrypt_image_from_array B key method rnd)
           \<and> (\<forall>b < next_addr s. mem s' b = mem s b)"
  using assms
  by (simp add: encrypt_image_from_array_st_def encrypt_image_from_array_def encrypt_pixels_def
      Let_def alloc_def assign_def)

lemma decrypt_st_frame:
  assumes "mem s a = Some B" and "a < next_addr s"
  shows "\<exists>r s'. decrypt_image_from_array_st s a key method = Some (r, s')
           \<and> next_addr s \<le> r
           \<and> mem s' r = Some (decrypt_image_from_array B key method)
           \<and> (\<forall>b < next_addr s. mem s' b = mem s b)"
  using assms
  by (simp add: decrypt_image_from_array_st_def decrypt_image_from_array_def decrypt_pixels_def
      Let_def alloc_def assign_def)

lemma luma_None: "(luma img = None) = (length (shape img) = 3 \<and> shape img ! 2 = 0)"
  by (cases img) auto

lemma luma_Some: "luma img = Some g \<Longrightarrow> length g = shape img ! 0 \<and> width g = shape img ! 1"
proof (cases img)
  case (Arr2 rows)
  assume "luma img = Some g"
  then have g: "g = map (map real_of_int) rows" by (simp add: Arr2)
  have "width (map (map real_of_int) rows) = width rows"
    by (rule width_cong) (simp add: comp_def)
  then show ?thesis by (simp add: g Arr2)
next
  case (Arr3 rows)
  assume "luma img = Some g"
  then have g: "g = map (map (\<lambda>p. np_mean (map real_of_int p))) rows"
    by (simp add: Arr3 split: if_splits)
  have "width (map (map (\<lambda>p. np_mean (map real_of_int p))) rows) = width rows"
    by (rule width_cong) (simp add: comp_def)
  then show ?thesis by (simp add: g Arr3)
qed

lemma analyze_image_None:
  "(analyze_image img = None)
     = (shape img ! 0 < 2 \<or> shape img ! 1 < 2 \<or> (length (shape img) = 3 \<and> shape img ! 2 = 0))"
proof (cases "luma img")
  case None
  then show ?thesis using luma_None [of img] by (simp add: analyze_image_def)
next
  case (Some g)
  then have "\<not> (length (shape img) = 3 \<and> shape img ! 2 = 0)"
    using luma_None [of img] by simp
  then show ?thesis
    using luma_Some [OF Some]
    by (auto simp: analyze_image_def Some np_gradient0_def Let_def split: option.splits)
qed

section \<open>Rounding to a double\<close>

lemma round_half_even_int [simp]: "round_half_even (of_int n) = n"
  by (simp add: round_half_even_def)

lemma round_half_even_le: "y \<le> of_int m \<Longrightarrow> round_half_even y \<le> m"
proof -
  assume a: "y \<le> of_int m"
  have f: "\<lfloor>y\<rfloor> \<le> m" using a by (simp add: floor_le_iff)
  show ?thesis
  proof (cases "y = of_int \<lfloor>y\<rfloor>")
    case True
    then show ?thesis using f by (simp add: round_half_even_def Let_def)
  next
    case False
    then have "of_int \<lfloor>y\<rfloor> < y" by (metis of_int_floor_le order_less_le)
    then have "of_int \<lfloor>y\<rfloor> < (of_int m :: real)" using a by linarith
    then have "\<lfloor>y\<rfloor> + 1 \<le> m" by simp
    then show ?thesis using f by (simp add: round_half_even_def Let_def)
  qed
qed

lemma round_half_even_nonneg: "0 \<le> y \<Longrightarrow> 0 \<le> round_half_even y"
proof -
  assume "0 \<le> y"
  then have "0 \<le> \<lfloor>y\<rfloor>" by simp
  then show ?thesis by (simp add: round_half_even_def Let_def)
qed

lemma binade_bounds:
  fixes x :: real
  assumes "x \<noteq> 0"
  shows "2 powr of_int \<lfloor>log 2 \<bar>x\<bar>\<rfloor> \<le> \<bar>x\<bar>" and "\<bar>x\<bar> < 2 powr of_int (\<lfloor>log 2 \<bar>x\<bar>\<rfloor> + 1)"
proof -
  have p: "0 < \<bar>x\<bar>" using assms by simp
  show "2 powr of_int \<lfloor>log 2 \<bar>x\<bar>\<rfloor> \<le> \<bar>x\<bar>"
    using le_log_iff [of 2 "\<bar>x\<bar>" "of_int \<lfloor>log 2 \<bar>x\<bar>\<rfloor>"] p of_int_floor_le [of "log 2 \<bar>x\<bar>"]
    by simp
  have "log 2 \<bar>x\<bar> < of_int (\<lfloor>log 2 \<bar>x\<bar>\<rfloor> + 1)" by linarith
  then show "\<bar>x\<bar> < 2 powr of_int (\<lfloor>log 2 \<bar>x\<bar>\<rfloor> + 1)"
    using log_less_iff [of 2 "\<bar>x\<bar>" "of_int (\<lfloor>log 2 \<bar>x\<bar>\<rfloor> + 1)"] p by simp
qed

lemma binade_eq:
  fixes x :: real
  assumes "2 powr of_int e \<le> \<bar>x\<bar>" and "\<bar>x\<bar> < 2 powr of_int (e + 1)"
  shows "\<lfloor>log 2 \<bar>x\<bar>\<rfloor> = e"
proof -
  have "0 < (2::real) powr of_int e" by simp
  then have p: "0 < \<bar>x\<bar>" using assms(1) by linarith
  have "of_int e \<le> log 2 \<bar>x\<bar>"
    using assms(1) p le_log_iff [of 2 "\<bar>x\<bar>" "of_int e"] by simp
  moreover have "log 2 \<bar>x\<bar> < of_int (e + 1)"
    using assms(2) p log_less_iff [of 2 "\<bar>x\<bar>" "of_int (e + 1)"] by simp
  ultimately show ?thesis by (simp add: floor_eq_iff)
qed

lemma pow2_int: "0 \<le> n \<Longrightarrow> (2::real) powr of_int n = of_int (2 ^ nat n)"
proof -
  assume "0 \<le> n"
  then have "(2::real) powr of_int n = 2 powr real (nat n)" by simp
  also have "\<dots> = 2 ^ nat n" by (simp add: powr_realpow)
  finally show ?thesis by simp
qed

lemma pow2_quot: "(2::real) powr of_int a / 2 powr of_int b = 2 powr of_int (a - b)"
  by (simp add: powr_diff)


lemma round_half_even_ge: "of_int m \<le> y \<Longrightarrow> m \<le> round_half_even y"
proof -
  assume "of_int m \<le> y"
  then have "m \<le> \<lfloor>y\<rfloor>" by (simp add: le_floor_iff)
  then show ?thesis by (simp add: round_half_even_def Let_def)
qed

lemma pow2_mono: "a \<le> b \<Longrightarrow> (2::real) powr of_int a \<le> 2 powr of_int b"
  by simp

lemma pow2_pos: "0 < (2::real) powr of_int a"
  by simp

lemma pow2_strict_mono: "a < b \<Longrightarrow> (2::real) powr of_int a < 2 powr of_int b"
  by simp

lemma pow2_le_cancel: "(2::real) powr of_int a \<le> 2 powr of_int b \<Longrightarrow> a \<le> b"
  by simp

lemma pow2_less_cancel: "(2::real) powr of_int a < 2 powr of_int b \<Longrightarrow> a < b"
  by simp

lemma pow2_1024: "(2::real) powr 1024 = 2 powr of_int 1024"
  by (simp del: powr_numeral)


lemma pow2_mult: "(2::real) powr of_int a * 2 powr of_int b = 2 powr of_int (a + b)"
  by (simp add: powr_add)

lemma pow2_cancel: "(2::real) powr of_int (a - b) * 2 powr of_int b = 2 powr of_int a"
  using pow2_mult [of "a - b" b] by simp

lemma round_double_unfold:
  assumes "x \<noteq> 0"
  defines "q \<equiv> 2 powr of_int (max \<lfloor>log 2 \<bar>x\<bar>\<rfloor> (- 1022) - 52)"
  defines "r \<equiv> of_int (round_half_even (\<bar>x\<bar> / q)) * q"
  shows "round_double x
    = (if 2 powr 1024 \<le> r then (if 0 < x then PInf else NInf) else Fin (sgn x * r))"
  by (simp only: round_double_def Let_def q_def r_def if_not_P [OF assms(1)])

lemma round_double_exact:
  assumes x: "x = of_int m * 2 powr of_int ex" and m: "\<bar>m\<bar> < 2 ^ 53"
    and ex: "- 1074 \<le> ex" "ex \<le> 971"
  shows "round_double x = Fin x"
proof (cases "x = 0")
  case True
  then show ?thesis by (simp add: round_double_def)
next
  case False
  define e0 where "e0 = \<lfloor>log 2 \<bar>x\<bar>\<rfloor>"
  define e where "e = max e0 (- 1022)"
  define q :: real where "q = 2 powr of_int (e - 52)"
  have ax: "\<bar>x\<bar> = of_int \<bar>m\<bar> * 2 powr of_int ex"
    by (simp add: x abs_mult)
  have "(of_int \<bar>m\<bar> :: real) < of_int (2 ^ 53)" using m by (simp only: of_int_less_iff)
  then have "(of_int \<bar>m\<bar> :: real) < 2 powr of_int 53" by (simp add: pow2_int)
  then have "(of_int \<bar>m\<bar> :: real) * 2 powr of_int ex < 2 powr of_int 53 * 2 powr of_int ex"
    by (intro mult_strict_right_mono pow2_pos)
  then have up: "\<bar>x\<bar> < 2 powr of_int (53 + ex)" by (simp only: ax pow2_mult)
  have "2 powr of_int e0 \<le> \<bar>x\<bar>" unfolding e0_def by (rule binade_bounds(1) [OF False])
  then have "(2::real) powr of_int e0 < 2 powr of_int (53 + ex)" using up by linarith
  then have "e0 < 53 + ex" by (rule pow2_less_cancel)
  then have d: "0 \<le> ex - (e - 52)" using ex by (simp add: e_def)
  have "\<bar>x\<bar> / q = of_int \<bar>m\<bar> * (2 powr of_int ex / 2 powr of_int (e - 52))"
    by (simp add: ax q_def)
  also have "\<dots> = of_int \<bar>m\<bar> * 2 powr of_int (ex - (e - 52))" by (simp only: pow2_quot)
  also have "\<dots> = of_int (\<bar>m\<bar> * 2 ^ nat (ex - (e - 52)))"
    by (simp only: pow2_int [OF d] of_int_mult)
  finally have "round_half_even (\<bar>x\<bar> / q) = \<bar>m\<bar> * 2 ^ nat (ex - (e - 52))"
    by (simp only: round_half_even_int)
  then have "of_int (round_half_even (\<bar>x\<bar> / q)) * q
      = of_int \<bar>m\<bar> * (2 powr of_int (ex - (e - 52)) * 2 powr of_int (e - 52))"
    by (simp only: pow2_int [OF d] q_def of_int_mult mult.assoc)
  also have "\<dots> = \<bar>x\<bar>" by (simp only: pow2_cancel ax)
  finally have r: "of_int (round_half_even (\<bar>x\<bar> / q)) * q = \<bar>x\<bar>" .
  have u: "round_double x = (if 2 powr 1024 \<le> of_int (round_half_even (\<bar>x\<bar> / q)) * q
      then (if 0 < x then PInf else NInf)
      else Fin (sgn x * (of_int (round_half_even (\<bar>x\<bar> / q)) * q)))"
    unfolding q_def e_def e0_def by (rule round_double_unfold [OF False])
  have "(2::real) powr of_int (53 + ex) \<le> 2 powr of_int 1024" using ex by (intro pow2_mono) simp
  then have lt: "\<not> 2 powr 1024 \<le> \<bar>x\<bar>" using up unfolding pow2_1024 by linarith
  have sg: "sgn x * \<bar>x\<bar> = x" by (simp add: sgn_mult_abs)
  show ?thesis by (simp only: u r if_not_P [OF lt] sg)
qed

lemma round_double_le:
  assumes x: "0 \<le> x" "x \<le> 2 powr of_int j" and j: "- 1074 \<le> j" "j \<le> 1023"
  shows "\<exists>r. round_double x = Fin r \<and> 0 \<le> r \<and> r \<le> 2 powr of_int j"
proof (cases "x = 0")
  case True
  then show ?thesis by (simp add: round_double_def)
next
  case False
  then have pos: "0 < x" and ax: "\<bar>x\<bar> = x" using x(1) by simp_all
  define e0 where "e0 = \<lfloor>log 2 \<bar>x\<bar>\<rfloor>"
  define e where "e = max e0 (- 1022)"
  define q :: real where "q = 2 powr of_int (e - 52)"
  define r where "r = of_int (round_half_even (\<bar>x\<bar> / q)) * q"
  have q0: "0 < q" by (simp add: q_def)
  have "2 powr of_int e0 \<le> \<bar>x\<bar>" unfolding e0_def by (rule binade_bounds(1) [OF False])
  then have "(2::real) powr of_int e0 \<le> 2 powr of_int j" using x(2) ax by linarith
  then have "e0 \<le> j" by (rule pow2_le_cancel)
  then have d: "0 \<le> j - (e - 52)" using j by (simp add: e_def)
  have "\<bar>x\<bar> / q \<le> 2 powr of_int j / q" using x(2) ax q0 by (simp add: divide_right_mono)
  also have "\<dots> = 2 powr of_int (j - (e - 52))" by (simp only: q_def pow2_quot)
  also have "\<dots> = of_int (2 ^ nat (j - (e - 52)))" by (rule pow2_int [OF d])
  finally have "round_half_even (\<bar>x\<bar> / q) \<le> 2 ^ nat (j - (e - 52))"
    by (rule round_half_even_le)
  then have "(of_int (round_half_even (\<bar>x\<bar> / q)) :: real) \<le> of_int (2 ^ nat (j - (e - 52)))"
    by (simp only: of_int_le_iff)
  then have "r \<le> of_int (2 ^ nat (j - (e - 52))) * q"
    unfolding r_def using q0 by (intro mult_right_mono) simp_all
  also have "\<dots> = 2 powr of_int (j - (e - 52)) * 2 powr of_int (e - 52)"
    by (simp only: pow2_int [OF d] q_def)
  also have "\<dots> = 2 powr of_int j" by (simp only: pow2_cancel)
  finally have rj: "r \<le> 2 powr of_int j" .
  have "0 \<le> \<bar>x\<bar> / q" using q0 by simp
  then have "0 \<le> round_half_even (\<bar>x\<bar> / q)" by (rule round_half_even_nonneg)
  then have r0: "0 \<le> r" unfolding r_def using q0 by simp
  have "(2::real) powr of_int j < 2 powr of_int 1024" using j by (intro pow2_strict_mono) simp
  then have lt: "\<not> 2 powr 1024 \<le> r" using rj unfolding pow2_1024 by linarith
  have u: "round_double x
      = (if 2 powr 1024 \<le> r then (if 0 < x then PInf else NInf) else Fin (sgn x * r))"
    unfolding r_def q_def e_def e0_def by (rule round_double_unfold [OF False])
  have "sgn x * r = r" using pos by simp
  then have "round_double x = Fin r" by (simp only: u if_not_P [OF lt])
  then show ?thesis using r0 rj by blast
qed

lemma round_double_overflow:
  assumes "2 powr 1024 \<le> x"
  shows "round_double x = PInf"
proof -
  have "0 < (2::real) powr 1024" by (simp del: powr_numeral)
  then have pos: "0 < x" using assms by linarith
  then have nz: "x \<noteq> 0" and ax: "\<bar>x\<bar> = x" by simp_all
  define e0 where "e0 = \<lfloor>log 2 \<bar>x\<bar>\<rfloor>"
  define e where "e = max e0 (- 1022)"
  define q :: real where "q = 2 powr of_int (e - 52)"
  define r where "r = of_int (round_half_even (\<bar>x\<bar> / q)) * q"
  have q0: "0 < q" by (simp add: q_def)
  have "\<bar>x\<bar> < 2 powr of_int (e0 + 1)" unfolding e0_def by (rule binade_bounds(2) [OF nz])
  then have "(2::real) powr of_int 1024 < 2 powr of_int (e0 + 1)"
    using assms ax unfolding pow2_1024 by linarith
  then have "1024 < e0 + 1" by (rule pow2_less_cancel)
  then have e1: "1024 \<le> e0" and ee: "e = e0" by (simp_all add: e_def)
  have lo: "2 powr of_int e0 \<le> \<bar>x\<bar>" unfolding e0_def by (rule binade_bounds(1) [OF nz])
  have "(of_int (2 ^ 52) :: real) = 2 powr of_int 52" by (simp add: pow2_int)
  also have "\<dots> = 2 powr of_int e0 / q"
    using pow2_quot [of e0 "e0 - 52"] by (simp add: q_def ee)
  also have "\<dots> \<le> \<bar>x\<bar> / q" using lo q0 by (simp add: divide_right_mono)
  finally have "2 ^ 52 \<le> round_half_even (\<bar>x\<bar> / q)" by (rule round_half_even_ge)
  then have "(of_int (2 ^ 52) :: real) \<le> of_int (round_half_even (\<bar>x\<bar> / q))"
    by (simp only: of_int_le_iff)
  then have "of_int (2 ^ 52) * q \<le> r"
    unfolding r_def using q0 by (intro mult_right_mono) simp_all
  moreover have "of_int (2 ^ 52) * q = 2 powr of_int 52 * 2 powr of_int (e0 - 52)"
    by (simp add: pow2_int q_def ee)
  moreover have "(2::real) powr of_int 52 * 2 powr of_int (e0 - 52) = 2 powr of_int e0"
    using pow2_mult [of 52 "e0 - 52"] by simp
  moreover have "(2::real) powr of_int 1024 \<le> 2 powr of_int e0" using e1 by (intro pow2_mono)
  ultimately have ge: "2 powr 1024 \<le> r" unfolding pow2_1024 by linarith
  have u: "round_double x
      = (if 2 powr 1024 \<le> r then (if 0 < x then PInf else NInf) else Fin (sgn x * r))"
    unfolding r_def q_def e_def e0_def by (rule round_double_unfold [OF nz])
  show ?thesis by (simp only: u if_P [OF ge] if_P [OF pos])
qed


lemma round_double_nonneg:
  assumes "0 \<le> x"
  shows "(\<exists>r. round_double x = Fin r \<and> 0 \<le> r) \<or> round_double x = PInf"
proof (cases "x = 0")
  case True
  then show ?thesis by (simp add: round_double_def)
next
  case False
  then have pos: "0 < x" using assms by simp
  define q :: real where "q = 2 powr of_int (max \<lfloor>log 2 \<bar>x\<bar>\<rfloor> (- 1022) - 52)"
  define r where "r = of_int (round_half_even (\<bar>x\<bar> / q)) * q"
  have q0: "0 < q" by (simp add: q_def)
  have u: "round_double x
      = (if 2 powr 1024 \<le> r then (if 0 < x then PInf else NInf) else Fin (sgn x * r))"
    unfolding r_def q_def by (rule round_double_unfold [OF False])
  have "0 \<le> \<bar>x\<bar> / q" using q0 by simp
  then have "0 \<le> round_half_even (\<bar>x\<bar> / q)" by (rule round_half_even_nonneg)
  then have r0: "0 \<le> r" unfolding r_def using q0 by simp
  have sg: "sgn x * r = r" using pos by simp
  show ?thesis
  proof (cases "2 powr 1024 \<le> r")
    case True
    have "round_double x = PInf" by (simp only: u if_P [OF True] if_P [OF pos])
    then show ?thesis by blast
  next
    case False
    then have "round_double x = Fin r" by (simp only: u if_False sg)
    then show ?thesis using r0 by blast
  qed
qed

lemma round_double_binade:
  assumes lo: "2 powr of_int e \<le> \<bar>x\<bar>" and hi: "\<bar>x\<bar> < 2 powr of_int (e + 1)"
    and e: "- 1022 \<le> e" "e \<le> 1022"
  shows "round_double x
    = Fin (sgn x * (of_int (round_half_even (\<bar>x\<bar> / 2 powr of_int (e - 52))) * 2 powr of_int (e - 52)))"
proof -
  have "0 < (2::real) powr of_int e" by simp
  then have nz: "x \<noteq> 0" using lo by auto
  define q :: real where "q = 2 powr of_int (e - 52)"
  define r where "r = of_int (round_half_even (\<bar>x\<bar> / q)) * q"
  have q0: "0 < q" by (simp add: q_def)
  have b: "\<lfloor>log 2 \<bar>x\<bar>\<rfloor> = e" by (rule binade_eq [OF lo hi])
  have m: "max e (- 1022) = e" using e by simp
  have u: "round_double x
      = (if 2 powr 1024 \<le> r then (if 0 < x then PInf else NInf) else Fin (sgn x * r))"
    using round_double_unfold [OF nz] by (simp only: b m q_def r_def)
  have "\<bar>x\<bar> / q \<le> 2 powr of_int (e + 1) / q" using hi q0 by (simp add: divide_right_mono)
  also have "\<dots> = 2 powr of_int 53" using pow2_quot [of "e + 1" "e - 52"] by (simp add: q_def)
  also have "\<dots> = of_int (2 ^ 53)" by (simp add: pow2_int)
  finally have "round_half_even (\<bar>x\<bar> / q) \<le> 2 ^ 53" by (rule round_half_even_le)
  then have "(of_int (round_half_even (\<bar>x\<bar> / q)) :: real) \<le> of_int (2 ^ 53)"
    by (simp only: of_int_le_iff)
  then have "r \<le> of_int (2 ^ 53) * q"
    unfolding r_def using q0 by (intro mult_right_mono) simp_all
  also have "of_int (2 ^ 53) * q = 2 powr of_int 53 * 2 powr of_int (e - 52)"
    by (simp add: pow2_int q_def)
  also have "\<dots> = 2 powr of_int (e + 1)"
  proof -
    have "53 + (e - 52) = e + 1" by simp
    then show ?thesis by (simp only: pow2_mult)
  qed
  also have "\<dots> < 2 powr of_int 1024" using e by (intro pow2_strict_mono) simp
  finally have lt: "\<not> 2 powr 1024 \<le> r" unfolding pow2_1024 by linarith
  have "round_double x = Fin (sgn x * r)" by (simp only: u if_not_P [OF lt])
  then show ?thesis by (simp only: r_def q_def)
qed

lemma float_of_int_small: "\<bar>k\<bar> < 2 ^ 53 \<Longrightarrow> float_of_int k = Inr (of_int k)"
proof -
  assume "\<bar>k\<bar> < 2 ^ 53"
  then have "round_double (of_int k) = Fin (of_int k)"
    by (intro round_double_exact [where m = k and ex = 0]) simp_all
  then show ?thesis by (simp add: float_of_int_def)
qed

lemma round_double_of_int: "\<bar>k\<bar> < 2 ^ 53 \<Longrightarrow> round_double (of_int k) = Fin (of_int k)"
  by (intro round_double_exact [where m = k and ex = 0]) simp_all

section \<open>The float product of the derived key\<close>

lemma smart_key_cases:
  assumes nn: "0 \<le> entropy a" "0 \<le> contrast a" and k: "1 \<le> base_key" "base_key \<le> 255"
  shows "case fp_mul (fp_mul (Fin (of_int base_key)) (Fin (entropy a))) (Fin (contrast a)) of
           Fin p \<Rightarrow> 0 \<le> p \<and> generate_smart_key a base_key = Inr (max 1 (\<lfloor>p\<rfloor> mod 256))
         | PInf \<Rightarrow> generate_smart_key a base_key = Inl OverflowError
         | NInf \<Rightarrow> False
         | NaN \<Rightarrow> generate_smart_key a base_key = Inl ValueError"
proof -
  have f: "float_of_int base_key = Inr (of_int base_key)"
    using k by (intro float_of_int_small) simp
  have g: "generate_smart_key a base_key =
      (case py_int (fp_mul (fp_mul (Fin (of_int base_key)) (Fin (entropy a))) (Fin (contrast a))) of
         Inl err \<Rightarrow> Inl err | Inr n \<Rightarrow> Inr (max 1 (n mod 256)))"
    by (simp add: generate_smart_key_def f Let_def split: sum.splits)
  have b: "0 \<le> of_int base_key * entropy a" using nn k by (intro mult_nonneg_nonneg) auto
  from round_double_nonneg [OF b] show ?thesis
  proof
    assume "\<exists>r. round_double (of_int base_key * entropy a) = Fin r \<and> 0 \<le> r"
    then obtain p1 where p1: "round_double (of_int base_key * entropy a) = Fin p1" "0 \<le> p1"
      by blast
    have c: "0 \<le> p1 * contrast a" using p1(2) nn by (intro mult_nonneg_nonneg)
    from round_double_nonneg [OF c] show ?thesis
    proof
      assume "\<exists>r. round_double (p1 * contrast a) = Fin r \<and> 0 \<le> r"
      then obtain p where p: "round_double (p1 * contrast a) = Fin p" "0 \<le> p" by blast
      show ?thesis using p by (simp add: g p1)
    next
      assume "round_double (p1 * contrast a) = PInf"
      then show ?thesis by (simp add: g p1)
    qed
  next
    assume "round_double (of_int base_key * entropy a) = PInf"
    then show ?thesis using nn by (simp add: g)
  qed
qed

lemma pow2_nat: "(2::real) ^ n = 2 powr of_int (int n)"
  by (simp add: powr_realpow)

lemma smart_key_returns:
  assumes nn: "0 \<le> entropy a" "0 \<le> contrast a" and k: "1 \<le> base_key" "base_key \<le> 255"
    and le: "entropy a \<le> 2 ^ 500" "contrast a \<le> 2 ^ 500"
  shows "\<exists>p. fp_mul (fp_mul (Fin (of_int base_key)) (Fin (entropy a))) (Fin (contrast a)) = Fin p"
proof -
  have e: "entropy a \<le> 2 powr of_int 500" and c: "contrast a \<le> 2 powr of_int 500"
    using le by (simp_all only: pow2_nat [of 500]) simp_all
  have "(of_int base_key :: real) \<le> of_int (2 ^ 8)" using k by (simp only: of_int_le_iff) simp
  then have bk: "(of_int base_key :: real) \<le> 2 powr of_int 8" by (simp add: pow2_int)
  have "of_int base_key * entropy a \<le> 2 powr of_int 8 * 2 powr of_int 500"
    using bk e nn k by (intro mult_mono) simp_all
  then have b1: "of_int base_key * entropy a \<le> 2 powr of_int 508" by (simp only: pow2_mult) simp
  have b0: "0 \<le> of_int base_key * entropy a" using nn k by (intro mult_nonneg_nonneg) auto
  obtain p1 where p1: "round_double (of_int base_key * entropy a) = Fin p1" "0 \<le> p1"
      "p1 \<le> 2 powr of_int 508"
    using round_double_le [OF b0 b1] by auto
  have "p1 * contrast a \<le> 2 powr of_int 508 * 2 powr of_int 500"
    using p1 c nn by (intro mult_mono) simp_all
  then have c1: "p1 * contrast a \<le> 2 powr of_int 1008" by (simp only: pow2_mult) simp
  have c0: "0 \<le> p1 * contrast a" using p1(2) nn by (intro mult_nonneg_nonneg)
  obtain p where "round_double (p1 * contrast a) = Fin p"
    using round_double_le [OF c0 c1] by auto
  then show ?thesis by (simp add: p1)
qed

section \<open>Backward steganography\<close>

text \<open>
  C8. For a \<^verbatim>\<open>uint8\<close> buffer and a key in 1..255, the backward steganography transform
  returns the buffer in which every sample is the input sample with its least
  significant bit cleared (\<open>x AND 254\<close>), whether or not the buffer came from a forward
  call. The cleared sample is twice the half of the input sample: the other seven bits
  are unchanged.
\<close>

theorem decrypt_steganography_clears_lsb:
  assumes "is_uint8 B" and "1 \<le> key" and "key \<le> 255"
  shows "decrypt_image_from_array B key ''steganography'' = map_ndarray (\<lambda>x. x AND 254) B
       \<and> decrypt_image_from_array B key ''steganography'' = map_ndarray (\<lambda>x. 2 * (x div 2)) B"
proof -
  have m: "is_uint8 (map_ndarray (\<lambda>x. x AND 254) B)"
    using assms(1) by (intro is_uint8_map and_254_range) (auto simp: is_uint8_def)
  have "decrypt_pixels B key ''steganography'' = map_ndarray (\<lambda>x. x AND 254) B"
    by (simp add: decrypt_pixels_def astype_int16_id [OF assms(1)])
  then have a: "decrypt_image_from_array B key ''steganography'' = map_ndarray (\<lambda>x. x AND 254) B"
    by (simp add: decrypt_image_from_array_def clip_uint8_id [OF m])
  have b: "map_ndarray (\<lambda>x. x AND 254) B = map_ndarray (\<lambda>x. 2 * (x div 2)) B"
    using assms(1) by (intro ndarray.map_cong refl and_254_half) (auto simp: is_uint8_def)
  show ?thesis using a b by simp
qed

theorem decrypt_steganography_clears_lsb_witness:
  "is_uint8 (Arr3 [[[255, 2, 3]]]) \<and>
   decrypt_image_from_array (Arr3 [[[255, 2, 3]]]) 5 ''steganography'' = Arr3 [[[254, 2, 2]]]"
  using decrypt_steganography_clears_lsb [of "Arr3 [[[255, 2, 3]]]" 5]
  by (simp add: is_uint8_def)

section \<open>The final clamp\<close>

lemma np_clip_id: "is_uint8 a \<Longrightarrow> np_clip a 0 255 = a"
proof -
  assume u: "is_uint8 a"
  have "map_ndarray (\<lambda>x. min (max x 0) 255) a = map_ndarray (\<lambda>x. x) a"
    using u by (intro ndarray.map_cong refl) (auto simp: is_uint8_def)
  then show ?thesis by (simp add: np_clip_def ndarray.map_ident)
qed

lemmas eval_defs =
  encrypt_image_from_array_def decrypt_image_from_array_def encrypt_pixels_def
  decrypt_pixels_def astype_int16_def astype_uint8_def int16_def uint8_def np_clip_def
  roll_rows_def width_def is_uint8_def methods_def imap_def all_zero_def all_one_def

text \<open>
  C10. For a \<^verbatim>\<open>uint8\<close> buffer, a key in 1..255 and each of the five methods, the value
  of \<^verbatim>\<open>pixels\<close> that reaches the last line of the forward and of the backward transform
  already has every sample in 0..255, so \<^verbatim>\<open>np.clip(pixels, 0, 255)\<close> returns it
  unchanged.
\<close>

theorem clip_changes_nothing:
  assumes "is_uint8 B" and "rect B" and "1 \<le> key" and "key \<le> 255"
    and "method \<in> set methods"
  shows "is_uint8 (encrypt_pixels B key method rnd)
       \<and> np_clip (encrypt_pixels B key method rnd) 0 255 = encrypt_pixels B key method rnd
       \<and> is_uint8 (decrypt_pixels B key method)
       \<and> np_clip (decrypt_pixels B key method) 0 255 = decrypt_pixels B key method"
  using assms(1-4) by (simp add: encrypt_pixels_uint8 decrypt_pixels_uint8 np_clip_id)

theorem clip_changes_nothing_witness:
  "is_uint8 (Arr3 [[[1, 2, 3], [250, 251, 252]]]) \<and> rect (Arr3 [[[1, 2, 3 :: int], [250, 251, 252]]])
   \<and> ''swap'' \<in> set methods
   \<and> np_clip (encrypt_pixels (Arr3 [[[1, 2, 3], [250, 251, 252]]]) 200 ''swap'' all_zero) 0 255
       = Arr3 [[[3, 202, 1], [252, 195, 250]]]
   \<and> np_clip (decrypt_pixels (Arr3 [[[1, 2, 3], [250, 251, 252]]]) 200 ''swap'') 0 255
       = Arr3 [[[3, 58, 1], [252, 51, 250]]]"
  using clip_changes_nothing [of "Arr3 [[[1, 2, 3], [250, 251, 252]]]" 200 "''swap''" all_zero]
  by (simp add: eval_defs)

section \<open>Shape preservation\<close>

text \<open>
  C3. For a (rectangular) buffer, a key in 1..255 and each of the five methods, the
  result of the forward and of the backward transform has the shape of the input: the
  same height, width and channel count (and is rectangular again).
\<close>

theorem transforms_preserve_shape:
  assumes "rect B" and "1 \<le> key" and "key \<le> 255" and "method \<in> set methods"
  shows "shape (encrypt_image_from_array B key method rnd) = shape B
       \<and> rect (encrypt_image_from_array B key method rnd)
       \<and> shape (decrypt_image_from_array B key method) = shape B
       \<and> rect (decrypt_image_from_array B key method)"
  using assms(1) by (simp add: encrypt_image_shape decrypt_image_shape)

theorem transforms_preserve_shape_witness:
  "rect (Arr3 [[[1, 2, 3 :: int], [4, 5, 6]], [[7, 8, 9], [250, 251, 252]]])
   \<and> ''aes'' \<in> set methods
   \<and> shape (Arr3 [[[1, 2, 3], [4, 5, 6]], [[7, 8, 9], [250, 251, 252]]]) = [2, 2, 3]
   \<and> shape (encrypt_image_from_array
        (Arr3 [[[1, 2, 3], [4, 5, 6]], [[7, 8, 9], [250, 251, 252]]]) 5 ''aes'' all_zero) = [2, 2, 3]
   \<and> shape (decrypt_image_from_array
        (Arr3 [[[1, 2, 3], [4, 5, 6]], [[7, 8, 9], [250, 251, 252]]]) 5 ''aes'') = [2, 2, 3]"
  using transforms_preserve_shape
    [of "Arr3 [[[1, 2, 3], [4, 5, 6]], [[7, 8, 9], [250, 251, 252]]]" 5 "''aes''" all_zero]
  by (simp add: width_def methods_def)

section \<open>Round trip\<close>

text \<open>
  C1. For every \<^verbatim>\<open>uint8\<close> buffer \<open>B\<close>, every key in 1..255 and each of the methods
  xor, swap and aes, the backward transform of the forward transform of \<open>B\<close> is \<open>B\<close>,
  sample for sample. For swap this includes the buffers with fewer than three channels
  (and the 2-D ones), which both transforms return as they are.
\<close>

theorem roundtrip_exact:
  assumes "is_uint8 B" and "rect B" and "1 \<le> key" and "key \<le> 255"
    and "method \<in> {''xor'', ''swap'', ''aes''}"
  shows "decrypt_image_from_array (encrypt_image_from_array B key method rnd) key method = B"
  using assms xor_roundtrip [of B key rnd] swap_roundtrip [of B key rnd]
    aes_roundtrip [of B key rnd]
  by auto

theorem roundtrip_exact_witness:
  "is_uint8 (Arr3 [[[1, 2, 3], [4, 5, 6]], [[7, 8, 9], [250, 251, 252]]])
   \<and> rect (Arr3 [[[1, 2, 3 :: int], [4, 5, 6]], [[7, 8, 9], [250, 251, 252]]])
   \<and> encrypt_image_from_array
        (Arr3 [[[1, 2, 3], [4, 5, 6]], [[7, 8, 9], [250, 251, 252]]]) 5 ''aes'' all_zero
       = Arr3 [[[22, 23, 24], [9, 10, 11]], [[16, 17, 18], [19, 20, 21]]]
   \<and> decrypt_image_from_array
        (Arr3 [[[22, 23, 24], [9, 10, 11]], [[16, 17, 18], [19, 20, 21]]]) 5 ''aes''
       = Arr3 [[[1, 2, 3], [4, 5, 6]], [[7, 8, 9], [250, 251, 252]]]"
proof -
  have e: "encrypt_image_from_array
        (Arr3 [[[1, 2, 3], [4, 5, 6]], [[7, 8, 9], [250, 251, 252]]]) 5 ''aes'' all_zero
       = Arr3 [[[22, 23, 24], [9, 10, 11]], [[16, 17, 18], [19, 20, 21]]]"
    by (simp add: eval_defs)
  have u: "is_uint8 (Arr3 [[[1, 2, 3], [4, 5, 6]], [[7, 8, 9], [250, 251, 252]]])"
    by (simp add: is_uint8_def)
  have r: "rect (Arr3 [[[1, 2, 3 :: int], [4, 5, 6]], [[7, 8, 9], [250, 251, 252]]])"
    by (simp add: width_def)
  show ?thesis
    using roundtrip_exact [OF u r, of 5 "''aes''" all_zero] e u r by simp
qed

section \<open>Round trip of the shift method\<close>

text \<open>
  C2 says that for the shift method the round trip returns \<open>B\<close> if and only if
  \<open>key mod 8 = 0\<close>. The buffer with the single pixel (1, 2, 3) and the key 1 refute it:
  no sample has a bit that the left shift by one pushes out of the low eight bits, so
  the round trip returns the buffer although \<open>1 mod 8\<close> is not 0.
\<close>

theorem shift_roundtrip_counterexample:
  "\<not> (decrypt_image_from_array
          (encrypt_image_from_array (Arr3 [[[1, 2, 3]]]) 1 ''shift'' all_zero) 1 ''shift''
        = Arr3 [[[1, 2, 3]]] \<longleftrightarrow> (1::int) mod 8 = 0)"
  by (simp add: eval_defs push_bit_eq_mult drop_bit_eq_div)

text \<open>
  C2, amended. For a \<^verbatim>\<open>uint8\<close> buffer \<open>B\<close> and a key in 1..255, the round trip of the
  shift method keeps the low \<open>8 - key mod 8\<close> bits of every sample and clears the
  others: every sample \<open>x\<close> becomes \<open>x mod 2 ^ (8 - key mod 8)\<close>. So the round trip
  returns \<open>B\<close> if and only if every sample of \<open>B\<close> is below \<open>2 ^ (8 - key mod 8)\<close>,
  which holds for every buffer when \<open>key mod 8 = 0\<close>; the samples that change are
  those with a value of at least \<open>2 ^ (8 - key mod 8)\<close>.
\<close>

theorem shift_roundtrip_keeps_low_bits:
  assumes "is_uint8 B" and "rect B" and "1 \<le> key" and "key \<le> 255"
  shows "decrypt_image_from_array (encrypt_image_from_array B key ''shift'' rnd) key ''shift''
           = map_ndarray (\<lambda>x. x mod 2 ^ (8 - nat (key mod 8))) B
       \<and> ((decrypt_image_from_array (encrypt_image_from_array B key ''shift'' rnd) key ''shift'' = B)
           = (\<forall>x \<in> set_ndarray B. x < 2 ^ (8 - nat (key mod 8))))
       \<and> (key mod 8 = 0 \<longrightarrow>
           decrypt_image_from_array (encrypt_image_from_array B key ''shift'' rnd) key ''shift'' = B)"
proof -
  have "decrypt_image_from_array (encrypt_image_from_array B key ''shift'' rnd) key ''shift'' = B"
    if "key mod 8 = 0"
    using that assms(1) by (force simp: shift_roundtrip_iff [OF assms] is_uint8_def)
  then show ?thesis
    using shift_roundtrip [OF assms] shift_roundtrip_iff [OF assms] by simp
qed

theorem shift_roundtrip_keeps_low_bits_witness:
  "is_uint8 (Arr3 [[[1, 200, 3]]]) \<and> rect (Arr3 [[[1, 200, 3 :: int]]])
   \<and> decrypt_image_from_array
        (encrypt_image_from_array (Arr3 [[[1, 200, 3]]]) 3 ''shift'' all_zero) 3 ''shift''
       = Arr3 [[[1, 8, 3]]]"
  using shift_roundtrip_keeps_low_bits [of "Arr3 [[[1, 200, 3]]]" 3 all_zero]
  by (simp add: is_uint8_def width_def)

section \<open>Unrecognised methods\<close>

text \<open>
  C4 says that the transforms fail with an error when the method is none of the five
  names. The source has no such check: the chain of \<^verbatim>\<open>if\<close>/\<^verbatim>\<open>elif\<close> has no \<^verbatim>\<open>else\<close>,
  so with the method \<^verbatim>\<open>rot13\<close> both functions return an image, with the samples of the
  input.
\<close>

theorem unknown_method_counterexample:
  "''rot13'' \<notin> set methods
   \<and> encrypt_image_from_array (Arr3 [[[1, 2, 3]]]) 5 ''rot13'' all_zero = Arr3 [[[1, 2, 3]]]
   \<and> decrypt_image_from_array (Arr3 [[[1, 2, 3]]]) 5 ''rot13'' = Arr3 [[[1, 2, 3]]]"
  by (simp add: eval_defs)

text \<open>
  C4, amended. For every \<^verbatim>\<open>uint8\<close> buffer and every key, when the method is none of
  the five names the forward and the backward transform raise no error: each returns
  an image with exactly the samples of the input buffer.
\<close>

theorem unknown_method_returns_input:
  assumes "is_uint8 B" and "method \<notin> set methods"
  shows "encrypt_image_from_array B key method rnd = B
       \<and> decrypt_image_from_array B key method = B"
  using unknown_method [OF assms] by simp

theorem unknown_method_returns_input_witness:
  "is_uint8 (Arr2 [[0, 128], [255, 7]]) \<and> ''AES'' \<notin> set methods
   \<and> encrypt_image_from_array (Arr2 [[0, 128], [255, 7]]) 300 ''AES'' all_one
       = Arr2 [[0, 128], [255, 7]]
   \<and> decrypt_image_from_array (Arr2 [[0, 128], [255, 7]]) 300 ''AES'' = Arr2 [[0, 128], [255, 7]]"
  using unknown_method_returns_input [of "Arr2 [[0, 128], [255, 7]]" "''AES''" 300 all_one]
  by (simp add: is_uint8_def methods_def)

section \<open>The caller's buffer\<close>

text \<open>
  C9. The forward and the backward transform never change the caller's array: for a
  store in which the address \<open>a\<close> holds the buffer \<open>B\<close>, a key in 1..255 and each of the
  five methods, the call returns, \<open>a\<close> still holds \<open>B\<close> afterwards, no array that existed
  before the call has changed, and the array of the returned image is at an address
  that did not exist before the call (so it is not the caller's array); it holds the
  result of the transform.
\<close>

theorem input_buffer_untouched:
  assumes "mem s a = Some B" and "a < next_addr s"
    and "1 \<le> key" and "key \<le> 255" and "method \<in> set methods"
  shows "(\<exists>r s'. encrypt_image_from_array_st s a key method rnd = Some (r, s')
            \<and> mem s' a = Some B \<and> r \<noteq> a \<and> next_addr s \<le> r
            \<and> (\<forall>b < next_addr s. mem s' b = mem s b)
            \<and> mem s' r = Some (encrypt_image_from_array B key method rnd))
       \<and> (\<exists>r s'. decrypt_image_from_array_st s a key method = Some (r, s')
            \<and> mem s' a = Some B \<and> r \<noteq> a \<and> next_addr s \<le> r
            \<and> (\<forall>b < next_addr s. mem s' b = mem s b)
            \<and> mem s' r = Some (decrypt_image_from_array B key method))"
proof -
  obtain r s' where e: "encrypt_image_from_array_st s a key method rnd = Some (r, s')"
      "next_addr s \<le> r" "mem s' r = Some (encrypt_image_from_array B key method rnd)"
      "\<forall>b < next_addr s. mem s' b = mem s b"
    using encrypt_st_frame [OF assms(1,2)] by blast
  obtain q t' where d: "decrypt_image_from_array_st s a key method = Some (q, t')"
      "next_addr s \<le> q" "mem t' q = Some (decrypt_image_from_array B key method)"
      "\<forall>b < next_addr s. mem t' b = mem s b"
    using decrypt_st_frame [OF assms(1,2)] by blast
  have "mem s' a = Some B" "r \<noteq> a" using e(2,4) assms(1,2) by auto
  moreover have "mem t' a = Some B" "q \<noteq> a" using d(2,4) assms(1,2) by auto
  ultimately show ?thesis using e d by simp
qed

theorem input_buffer_untouched_witness:
  "''swap'' \<in> set methods
   \<and> (case encrypt_image_from_array_st
          \<lparr>mem = [0 \<mapsto> Arr3 [[[1, 2, 3]]]], next_addr = 1\<rparr> 0 5 ''swap'' all_zero of
        None \<Rightarrow> False
      | Some (r, s') \<Rightarrow> r = 3 \<and> mem s' 0 = Some (Arr3 [[[1, 2, 3]]])
          \<and> mem s' 3 = Some (Arr3 [[[3, 7, 1]]]))
   \<and> (case decrypt_image_from_array_st
          \<lparr>mem = [0 \<mapsto> Arr3 [[[3, 7, 1]]]], next_addr = 1\<rparr> 0 5 ''swap'' of
        None \<Rightarrow> False
      | Some (r, s') \<Rightarrow> r = 3 \<and> mem s' 0 = Some (Arr3 [[[3, 7, 1]]])
          \<and> mem s' 3 = Some (Arr3 [[[1, 2, 3]]]))"
  using input_buffer_untouched
    [of "\<lparr>mem = [0 \<mapsto> Arr3 [[[1, 2, 3]]]], next_addr = 1\<rparr>" 0 "Arr3 [[[1, 2, 3]]]" 5
      "''swap''" all_zero]
  by (simp add: encrypt_image_from_array_st_def decrypt_image_from_array_st_def alloc_def
      assign_def Let_def eval_defs)

section \<open>Analysis of small images\<close>

text \<open>
  The full condition under which \<^verbatim>\<open>analyze_image\<close> returns \<^verbatim>\<open>None\<close>: the buffer has
  fewer than two rows or fewer than two columns (or is 3-D with no channel). Entropy,
  contrast and brightness are computed first; then \<^verbatim>\<open>np.gradient(gray)\<close>, which
  differentiates along both axes although only the first result is used, raises for an
  axis with fewer than two samples, and \<^verbatim>\<open>except Exception: return None\<close> drops what
  was computed.
\<close>

theorem analyze_image_fails_iff:
  "(analyze_image img = None)
     = (shape img ! 0 < 2 \<or> shape img ! 1 < 2 \<or> (length (shape img) = 3 \<and> shape img ! 2 = 0))
   \<and> analyze_image (Arr2 [[v]]) = None
   \<and> analyze_image (Arr3 [[[r, g, b]]]) = None"
proof -
  have "analyze_image (Arr2 [[v]]) = None"
    by (simp add: analyze_image_None width_def)
  moreover have "analyze_image (Arr3 [[[r, g, b]]]) = None"
    by (simp add: analyze_image_None width_def)
  ultimately show ?thesis by (simp add: analyze_image_None)
qed

theorem analyze_image_fails_iff_witness:
  "analyze_image (Arr2 [[1, 2], [3, 4]]) \<noteq> None \<and> analyze_image (Arr2 [[1, 2, 3, 4]]) = None"
  using analyze_image_fails_iff [of "Arr2 [[1, 2], [3, 4]]"]
    analyze_image_fails_iff [of "Arr2 [[1, 2, 3, 4]]"]
  by (simp add: width_def)

text \<open>
  C5. The analysis of a 1 x 1 single-sample image should succeed, with entropy 0, and
  the analysis should fail only for an empty buffer. The source does not do this: for
  the 1 x 1 image with the sample 7 \<^verbatim>\<open>analyze_image\<close> returns \<^verbatim>\<open>None\<close>, as it does for
  every image that is one pixel wide or one pixel high. The callers
  \<^verbatim>\<open>recommend_method\<close> and \<^verbatim>\<open>generate_smart_key\<close> of the window subscript the result
  without a test for \<^verbatim>\<open>None\<close>, and the entropy computation of \<^verbatim>\<open>update_metrics\<close>
  handles such an image: the failure is a defect of \<^verbatim>\<open>analyze_image\<close>.
\<close>

theorem analyze_single_pixel_returns_None:
  "analyze_image (Arr2 [[7]]) = None \<and> analyze_image (Arr2 [[7, 9, 200]]) = None
   \<and> analyze_image (Arr2 [[7], [9], [200]]) = None"
  by (simp add: analyze_image_def np_gradient0_def width_def)

section \<open>The derived key\<close>

text \<open>
  C6 says that the derived key is a value in 1..255 for every non-negative entropy and
  contrast. With the entropy \<open>2 ^ 1023\<close> (a double), the contrast 2 and the base key 1
  the float product \<^verbatim>\<open>base_key * entropy * contrast\<close> overflows to infinity, and
  \<^verbatim>\<open>int\<close> of an infinity raises \<^verbatim>\<open>OverflowError\<close>: no key is returned.
\<close>

theorem generate_smart_key_overflow_counterexample:
  "generate_smart_key \<lparr>entropy = 2 ^ 1023, contrast = 2, brightness = 0, edge_density = 0,
      complexity = ''high''\<rparr> 1 = Inl OverflowError"
proof -
  have f: "float_of_int 1 = Inr 1" using float_of_int_small [of 1] by simp
  have "(2::real) ^ 1023 = of_int (2 ^ 52) * 2 powr of_int 971"
    by (simp add: pow2_int)
  then have r1: "round_double (2 ^ 1023) = Fin (2 ^ 1023)"
    by (intro round_double_exact [where m = "2 ^ 52" and ex = 971]) simp_all
  have "(2::real) powr 1024 \<le> 2 ^ 1023 * 2" by simp
  then have r2: "round_double (2 ^ 1023 * 2) = PInf" by (rule round_double_overflow)
  have "fp_mul (fp_mul (Fin 1) (Fin (2 ^ 1023))) (Fin 2) = PInf"
    by (simp only: fp_mul.simps mult_1 r1 r2)
  then show ?thesis by (simp add: generate_smart_key_def f del: fp_mul.simps)
qed

text \<open>
  C6, amended. Let \<open>p\<close> be the float product \<^verbatim>\<open>(base_key * entropy) * contrast\<close>, each
  multiplication rounded to the nearest double. For every non-negative entropy and
  contrast and every base key in 1..255: when \<open>p\<close> is finite, the derived key is
  \<open>max 1 (\<lfloor>p\<rfloor> mod 256)\<close>, a value in 1..255; \<open>p\<close> is finite, and a key is returned,
  whenever entropy and contrast are at most \<open>2 ^ 500\<close> (every analysis of an image is
  far below that); a key that is returned is always in 1..255; the base key 10 with
  entropy 2.0 and contrast 50.0 gives the key 232. When the product overflows no key
  is returned: the function raises \<^verbatim>\<open>OverflowError\<close>, or \<^verbatim>\<open>ValueError\<close> when an
  infinite intermediate product meets the contrast 0.
\<close>

theorem generate_smart_key_spec:
  assumes "0 \<le> entropy a" and "0 \<le> contrast a" and "1 \<le> base_key" and "base_key \<le> 255"
  shows "(case fp_mul (fp_mul (Fin (of_int base_key)) (Fin (entropy a))) (Fin (contrast a)) of
            Fin p \<Rightarrow> generate_smart_key a base_key = Inr (max 1 (\<lfloor>p\<rfloor> mod 256))
              \<and> 1 \<le> max 1 (\<lfloor>p\<rfloor> mod 256) \<and> max 1 (\<lfloor>p\<rfloor> mod 256) \<le> 255
          | PInf \<Rightarrow> generate_smart_key a base_key = Inl OverflowError
          | NInf \<Rightarrow> False
          | NaN \<Rightarrow> generate_smart_key a base_key = Inl ValueError)
       \<and> (entropy a \<le> 2 ^ 500 \<and> contrast a \<le> 2 ^ 500 \<longrightarrow>
            (\<exists>key. generate_smart_key a base_key = Inr key \<and> 1 \<le> key \<and> key \<le> 255))
       \<and> (\<forall>key. generate_smart_key a base_key = Inr key \<longrightarrow> 1 \<le> key \<and> key \<le> 255)
       \<and> generate_smart_key \<lparr>entropy = 2, contrast = 50, brightness = b, edge_density = d,
            complexity = c\<rparr> 10 = Inr 232"
proof -
  let ?P = "fp_mul (fp_mul (Fin (of_int base_key)) (Fin (entropy a))) (Fin (contrast a))"
  note cs = smart_key_cases [OF assms]
  have range: "1 \<le> max 1 (n mod 256) \<and> max 1 (n mod 256) \<le> 255" for n :: int
  proof -
    have "n mod 256 < 256" by simp
    then show ?thesis by linarith
  qed
  have A: "case ?P of
            Fin p \<Rightarrow> generate_smart_key a base_key = Inr (max 1 (\<lfloor>p\<rfloor> mod 256))
              \<and> 1 \<le> max 1 (\<lfloor>p\<rfloor> mod 256) \<and> max 1 (\<lfloor>p\<rfloor> mod 256) \<le> 255
          | PInf \<Rightarrow> generate_smart_key a base_key = Inl OverflowError
          | NInf \<Rightarrow> False
          | NaN \<Rightarrow> generate_smart_key a base_key = Inl ValueError"
    using cs range by (cases ?P) simp_all
  have B: "\<exists>key. generate_smart_key a base_key = Inr key \<and> 1 \<le> key \<and> key \<le> 255"
    if "entropy a \<le> 2 ^ 500 \<and> contrast a \<le> 2 ^ 500"
  proof -
    from that have "entropy a \<le> 2 ^ 500" and "contrast a \<le> 2 ^ 500" by simp_all
    from smart_key_returns [OF assms this] obtain p where "?P = Fin p" ..
    then have "generate_smart_key a base_key = Inr (max 1 (\<lfloor>p\<rfloor> mod 256))"
      using cs by simp
    then show ?thesis using range by blast
  qed
  have C: "1 \<le> key \<and> key \<le> 255" if "generate_smart_key a base_key = Inr key" for key
    using cs that range by (cases ?P) auto
  have D: "generate_smart_key \<lparr>entropy = 2, contrast = 50, brightness = b, edge_density = d,
      complexity = c\<rparr> 10 = Inr 232"
  proof -
    have f: "float_of_int 10 = Inr 10" using float_of_int_small [of 10] by simp
    have r1: "round_double 20 = Fin 20" using round_double_of_int [of 20] by simp
    have r2: "round_double 1000 = Fin 1000" using round_double_of_int [of 1000] by simp
    show ?thesis by (simp add: generate_smart_key_def f r1 r2)
  qed
  show ?thesis using A B C D by blast
qed

theorem generate_smart_key_spec_witness:
  "is_double (5404319552844595 / 9007199254740992) \<and> is_double 5
   \<and> generate_smart_key \<lparr>entropy = 5404319552844595 / 9007199254740992, contrast = 5,
        brightness = 0, edge_density = 0, complexity = ''low''\<rparr> 1 = Inr 3
   \<and> generate_smart_key \<lparr>entropy = 0, contrast = 0, brightness = 7, edge_density = 0,
        complexity = ''low''\<rparr> 10 = Inr 1"
proof -
  have r1: "round_double (5404319552844595 / 9007199254740992)
      = Fin (5404319552844595 / 9007199254740992)"
    by (intro round_double_exact [where m = 5404319552844595 and ex = "- 53"])
      (simp_all add: powr_neg_numeral)
  have r2: "round_double (27021597764222975 / 9007199254740992) = Fin 3"
    using round_double_binade [of 1 "27021597764222975 / 9007199254740992"]
    by (simp add: round_half_even_def Let_def powr_neg_numeral)
  have r3: "round_double 5 = Fin 5" using round_double_of_int [of 5] by simp
  have r0: "round_double 0 = Fin 0" by (simp add: round_double_def)
  have d: "is_double (5404319552844595 / 9007199254740992) \<and> is_double 5"
    by (simp only: is_double_def r1 r3)
  have "generate_smart_key \<lparr>entropy = 5404319552844595 / 9007199254740992, contrast = 5,
        brightness = 0, edge_density = 0, complexity = ''low''\<rparr> 1 = Inr 3"
    using generate_smart_key_spec [of "\<lparr>entropy = 5404319552844595 / 9007199254740992,
        contrast = 5, brightness = 0, edge_density = 0, complexity = ''low''\<rparr>" 1]
    by (simp add: r1 r2)
  moreover have "generate_smart_key \<lparr>entropy = 0, contrast = 0, brightness = 7,
        edge_density = 0, complexity = ''low''\<rparr> 10 = Inr 1"
    using generate_smart_key_spec [of "\<lparr>entropy = 0, contrast = 0, brightness = 7,
        edge_density = 0, complexity = ''low''\<rparr>" 10]
    by (simp add: r0)
  ultimately show ?thesis using d by simp
qed

section \<open>The recommendation\<close>

text \<open>
  C7. The recommendation is a function of the analysis (total and deterministic),
  decided in this order: complexity high gives aes; otherwise a contrast above 50 gives
  xor; otherwise swap. The complexity of an analysis is high for an entropy above 6,
  medium for an entropy above 4 and at most 6, and low for an entropy of at most 4. So
  entropy 7 gives aes with any contrast, entropy 5 with contrast 60 gives xor, and
  entropy 3 with contrast 10 gives swap.
\<close>

theorem recommend_method_table:
  "(complexity a = ''high'' \<longrightarrow> recommend_method a = ''aes'')
   \<and> (complexity a \<noteq> ''high'' \<and> contrast a > 50 \<longrightarrow> recommend_method a = ''xor'')
   \<and> (complexity a \<noteq> ''high'' \<and> \<not> contrast a > 50 \<longrightarrow> recommend_method a = ''swap'')
   \<and> (e > 6 \<longrightarrow> complexity_of e = ''high'')
   \<and> (4 < e \<and> e \<le> 6 \<longrightarrow> complexity_of e = ''medium'')
   \<and> (e \<le> 4 \<longrightarrow> complexity_of e = ''low'')
   \<and> (analyze_image img = Some r \<longrightarrow> complexity r = complexity_of (entropy r))
   \<and> recommend_method \<lparr>entropy = 7, contrast = c, brightness = b, edge_density = d,
        complexity = complexity_of 7\<rparr> = ''aes''
   \<and> recommend_method \<lparr>entropy = 5, contrast = 60, brightness = b, edge_density = d,
        complexity = complexity_of 5\<rparr> = ''xor''
   \<and> recommend_method \<lparr>entropy = 3, contrast = 10, brightness = b, edge_density = d,
        complexity = complexity_of 3\<rparr> = ''swap''"
  by (auto simp: recommend_method_def complexity_of_def analyze_image_def Let_def
      split: option.splits)

theorem recommend_method_table_witness:
  "recommend_method \<lparr>entropy = 9 / 2, contrast = 51, brightness = 100, edge_density = 0,
      complexity = ''medium''\<rparr> = ''xor''
   \<and> recommend_method \<lparr>entropy = 13 / 2, contrast = 0, brightness = 100, edge_density = 0,
      complexity = ''high''\<rparr> = ''aes''
   \<and> recommend_method \<lparr>entropy = 1, contrast = 50, brightness = 100, edge_density = 0,
      complexity = ''low''\<rparr> = ''swap''
   \<and> complexity_of (13 / 2) = ''high'' \<and> complexity_of 6 = ''medium''
   \<and> complexity_of 4 = ''low''"
  using recommend_method_table [of "\<lparr>entropy = 9 / 2, contrast = 51, brightness = 100,
      edge_density = 0, complexity = ''medium''\<rparr>" "13 / 2"]
    recommend_method_table [of "\<lparr>entropy = 13 / 2, contrast = 0, brightness = 100,
      edge_density = 0, complexity = ''high''\<rparr>" 6]
    recommend_method_table [of "\<lparr>entropy = 1, contrast = 50, brightness = 100,
      edge_density = 0, complexity = ''low''\<rparr>" 4]
  by simp

end
